theory Spec2Isabelle
  imports Complex_Main
begin

section \<open>Data model\<close>

text \<open>
  JavaScript numbers that hold coordinates, lengths, rates, forces and velocities are
  modelled as \<^typ>\<open>real\<close>: the arithmetic is the exact one, rounding of IEEE doubles,
  NaN and the infinities are outside the model. Counters and array indices are
  \<^typ>\<open>nat\<close>. A property that JavaScript leaves \<^verbatim>\<open>undefined\<close> until it is first
  written (\<^verbatim>\<open>originalLength\<close>, \<^verbatim>\<open>targetLength\<close>) is an \<^typ>\<open>real option\<close>.

  A polygon point is the array \<^verbatim>\<open>[x, y]\<close>, a pair. A vertex is the object
  \<^verbatim>\<open>{x, y}\<close>; its fields are called \<open>vx\<close> and \<open>vy\<close> here.
  The edge fields \<^verbatim>\<open>id\<close>, \<^verbatim>\<open>end\<close> and \<^verbatim>\<open>length\<close> are called \<open>eid\<close>,
  \<open>endv\<close> and \<open>len\<close>.
\<close>

type_synonym point = "real \<times> real"

record vertex =
  vx :: real
  vy :: real

record edge =
  eid :: nat
  start :: vertex
  endv :: vertex
  len :: real
  originalLength :: "real option"
  targetLength :: "real option"
  connectedCells :: "nat list"
  connectedEdges :: "nat list"
  acuteAngleCount :: nat
  expandValue :: real

record cell =
  cell_id :: nat
  polygon :: "point list option"
  center :: point

text \<open>The objects \<^verbatim>\<open>{edgeId, value, type}\<close> returned by \<^verbatim>\<open>calculateEdgeValues\<close>.\<close>

record edgeValue =
  ev_edgeId :: nat
  ev_value :: real
  ev_type :: string

section \<open>EdgeAnalyzer\<close>







text \<open>
  \<^verbatim>\<open>calculateEdgeValues\<close> writes \<^verbatim>\<open>expandValue\<close> into every edge and returns one
  value object per edge, in the order of the edges. The model returns the updated edge
  list together with the returned array; \<open>edgeValueOf\<close> is the \<^verbatim>\<open>value\<close> that the
  loop body computes for one edge.
\<close>

definition edgeValueOf :: "real \<Rightarrow> edge \<Rightarrow> real" where
  "edgeValueOf changeRate e =
     (if acuteAngleCount e > 0 then changeRate * real (acuteAngleCount e) else - changeRate)"

definition calculateEdgeValues :: "edge list \<Rightarrow> real \<Rightarrow> edge list \<times> edgeValue list" where
  "calculateEdgeValues edges changeRate =
     (map (\<lambda>e. e\<lparr>expandValue := edgeValueOf changeRate e\<rparr>) edges,
      map (\<lambda>e. (let v = edgeValueOf changeRate e
                 in \<lparr>ev_edgeId = eid e, ev_value = v,
                     ev_type = (if v > 0 then ''expand'' else ''shrink'')\<rparr>)) edges)"

section \<open>VoronoiMesh: edge extraction\<close>

text \<open>
  \<^verbatim>\<open>Number.prototype.toFixed(6)\<close>. The string it returns is the sign \<^verbatim>\<open>-\<close> when the
  number is below zero, then the decimal digits of the integer \<open>n\<close> that is nearest to
  the magnitude times \<open>10^6\<close> (the larger one on a tie), with the point six digits from
  the right. The model keeps the sign flag and \<open>n\<close>, which the string determines and
  which determine the string. From \<open>10^21\<close> on, \<^verbatim>\<open>toFixed\<close> prints the number itself
  (\<^verbatim>\<open>ToString\<close>), which determines the number.
\<close>

datatype fixed = Fixed bool nat | Exponential real

definition toFixed6 :: "real \<Rightarrow> fixed" where
  "toFixed6 v =
     (if \<bar>v\<bar> \<ge> 10 ^ 21 then Exponential v
      else Fixed (v < 0) (nat \<lfloor>\<bar>v\<bar> * 10 ^ 6 + 1 / 2\<rfloor>))"

text \<open>
  The key string \<^verbatim>\<open>"x1,y1-x2,y2"\<close> of \<^verbatim>\<open>createEdgeKey\<close> is the tuple of its four
  printed coordinates.
\<close>

type_synonym edgeKey = "(fixed \<times> fixed) \<times> (fixed \<times> fixed)"

definition createEdgeKey :: "point \<Rightarrow> point \<Rightarrow> edgeKey" where
  "createEdgeKey startp endp =
     (let p1 = (if fst startp < fst endp \<or> (fst startp = fst endp \<and> snd startp < snd endp)
                then startp else endp);
          p2 = (if fst startp < fst endp \<or> (fst startp = fst endp \<and> snd startp < snd endp)
                then endp else startp)
      in ((toFixed6 (fst p1), toFixed6 (snd p1)), (toFixed6 (fst p2), toFixed6 (snd p2))))"

text \<open>
  The state of \<^verbatim>\<open>extractEdgesFromCells\<close>: the array \<^verbatim>\<open>this.edges\<close> and the local
  \<^verbatim>\<open>edgeMap\<close>. The map holds references to edge objects that are also elements of
  \<^verbatim>\<open>this.edges\<close>; the array only grows, so a reference is the index at which the object
  was pushed.
\<close>

type_synonym extraction = "edge list \<times> (edgeKey \<rightharpoonup> nat)"

definition newEdge :: "nat \<Rightarrow> point \<Rightarrow> point \<Rightarrow> nat \<Rightarrow> edge" where
  "newEdge n startp endp cellIndex =
     \<lparr>eid = n,
      start = \<lparr>vx = fst startp, vy = snd startp\<rparr>,
      endv = \<lparr>vx = fst endp, vy = snd endp\<rparr>,
      len = sqrt ((fst endp - fst startp) ^ 2 + (snd endp - snd startp) ^ 2),
      originalLength = None,
      targetLength = None,
      connectedCells = [cellIndex],
      connectedEdges = [],
      acuteAngleCount = 0,
      expandValue = 0\<rparr>"

text \<open>
  The body of the inner loop, for the pair \<^verbatim>\<open>start, end\<close> of the cell \<^verbatim>\<open>cellIndex\<close>:
  a new key pushes a new edge, a known key pushes the cell onto the edge found.
\<close>

definition processPair :: "nat \<Rightarrow> point \<Rightarrow> point \<Rightarrow> extraction \<Rightarrow> extraction" where
  "processPair cellIndex startp endp s =
     (let edges = fst s; edgeMap = snd s; edgeKey = createEdgeKey startp endp
      in case edgeMap edgeKey of
           None \<Rightarrow>
             (edges @ [newEdge (length edges) startp endp cellIndex],
              edgeMap(edgeKey \<mapsto> length edges))
         | Some k \<Rightarrow>
             (edges[k := (edges ! k)\<lparr>connectedCells := connectedCells (edges ! k) @ [cellIndex]\<rparr>],
              edgeMap))"

text \<open>The consecutive pairs of a polygon, the last vertex paired with the first.\<close>

definition polygonPairs :: "point list \<Rightarrow> (point \<times> point) list" where
  "polygonPairs p = map (\<lambda>i. (p ! i, p ! ((i + 1) mod length p))) [0..<length p]"

text \<open>
  The body of the outer loop (a cell without polygon is skipped), and the outer loop with
  its counter \<^verbatim>\<open>cellIndex\<close>.
\<close>

definition processCell :: "nat \<Rightarrow> cell \<Rightarrow> extraction \<Rightarrow> extraction" where
  "processCell cellIndex c s =
     (case polygon c of
        None \<Rightarrow> s
      | Some p \<Rightarrow> fold (\<lambda>pr. processPair cellIndex (fst pr) (snd pr)) (polygonPairs p) s)"

fun cellsLoop :: "nat \<Rightarrow> cell list \<Rightarrow> extraction \<Rightarrow> extraction" where
  "cellsLoop cellIndex [] s = s"
| "cellsLoop cellIndex (c # cs) s = cellsLoop (Suc cellIndex) cs (processCell cellIndex c s)"

text \<open>
  \<^verbatim>\<open>extractEdgesFromCells\<close> appends to \<^verbatim>\<open>this.edges\<close> (its first argument here) with a
  fresh \<^verbatim>\<open>edgeMap\<close>; \<^verbatim>\<open>extractEdgeData\<close> calls it on the empty array.
\<close>

definition extractEdgesFromCells :: "edge list \<Rightarrow> cell list \<Rightarrow> edge list" where
  "extractEdgesFromCells edges0 cells = fst (cellsLoop 0 cells (edges0, Map.empty))"

section \<open>VoronoiMesh: connectivity\<close>

definition gridSize :: real where
  "gridSize = 1 / 100"

text \<open>\<^verbatim>\<open>Math.round\<close> rounds to the nearest integer, a tie towards plus infinity.\<close>

definition mathRound :: "real \<Rightarrow> int" where
  "mathRound v = \<lfloor>v + 1 / 2\<rfloor>"

type_synonym gridKey = "int \<times> int"

definition getGridKey :: "vertex \<Rightarrow> gridKey" where
  "getGridKey v = (mathRound (vx v / gridSize), mathRound (vy v / gridSize))"

text \<open>A grid entry is the object \<^verbatim>\<open>{edgeIndex, isStart}\<close>.\<close>

type_synonym gridEntry = "nat \<times> bool"

type_synonym vertexGrid = "gridKey \<rightharpoonup> gridEntry list"

text \<open>
  The first loop pushes the start and the end of every edge onto the list of its grid
  key (\<open>gridPush\<close>, which creates the list when the key is new); \<open>neighborsAt\<close> is
  \<^verbatim>\<open>vertexGrid.get(key) || []\<close>. The second loop rebuilds \<open>connectedEdges\<close> of edge
  \<open>i\<close> from the neighbours at its start and then at its end (\<open>connectEdge\<close>).
\<close>

definition gridPush :: "gridKey \<Rightarrow> gridEntry \<Rightarrow> vertexGrid \<Rightarrow> vertexGrid" where
  "gridPush k entry g = (case g k of None \<Rightarrow> g(k \<mapsto> [entry]) | Some l \<Rightarrow> g(k \<mapsto> l @ [entry]))"

definition groupEndpoints :: "edge list \<Rightarrow> vertexGrid" where
  "groupEndpoints edges =
     fold (\<lambda>i g. gridPush (getGridKey (endv (edges ! i))) (i, False)
                   (gridPush (getGridKey (start (edges ! i))) (i, True) g))
          [0..<length edges] Map.empty"

definition neighborsAt :: "vertexGrid \<Rightarrow> gridKey \<Rightarrow> gridEntry list" where
  "neighborsAt g k = (case g k of None \<Rightarrow> [] | Some l \<Rightarrow> l)"

definition connectEdge :: "vertexGrid \<Rightarrow> nat \<Rightarrow> edge \<Rightarrow> edge" where
  "connectEdge g i e =
     (let startNeighbors = neighborsAt g (getGridKey (start e));
          c1 = fold (\<lambda>neighbor c. if fst neighbor \<noteq> i then c @ [fst neighbor] else c)
                 startNeighbors [];
          endNeighbors = neighborsAt g (getGridKey (endv e));
          c2 = fold (\<lambda>neighbor c.
                       if fst neighbor \<noteq> i \<and> fst neighbor \<notin> set c then c @ [fst neighbor] else c)
                 endNeighbors c1
      in e\<lparr>connectedEdges := c2\<rparr>)"

definition findConnectedEdges :: "edge list \<Rightarrow> edge list" where
  "findConnectedEdges edges =
     (let vertexGrid = groupEndpoints edges
      in map (\<lambda>i. connectEdge vertexGrid i (edges ! i)) [0..<length edges])"

definition extractEdgeData :: "cell list \<Rightarrow> edge list" where
  "extractEdgeData cells = findConnectedEdges (extractEdgesFromCells [] cells)"

section \<open>MeshEvolver\<close>

record evolverConfig =
  springConstant :: real
  dampingFactor :: real
  timeStep :: real

definition defaultConfig :: evolverConfig where
  "defaultConfig = \<lparr>springConstant = 3 / 10, dampingFactor = 85 / 100, timeStep = 1 / 10\<rparr>"

text \<open>The key string \<^verbatim>\<open>"x,y"\<close> of \<^verbatim>\<open>getVertexKey\<close> is the pair of its printed coordinates.\<close>

type_synonym vertexKey = "fixed \<times> fixed"

definition getVertexKey :: "vertex \<Rightarrow> vertexKey" where
  "getVertexKey v = (toFixed6 (vx v), toFixed6 (vy v))"

text \<open>
  The evolver object: its configuration and the map \<^verbatim>\<open>vertexVelocities\<close> from key
  strings to velocity objects \<^verbatim>\<open>{x, y}\<close>.
\<close>

record evolver =
  config :: evolverConfig
  vertexVelocities :: "vertexKey \<rightharpoonup> real \<times> real"

definition newEvolver :: evolver where
  "newEvolver = \<lparr>config = defaultConfig, vertexVelocities = Map.empty\<rparr>"

text \<open>
  Every edge built by \<^verbatim>\<open>extractEdgesFromCells\<close> owns two vertex objects of its own
  (two fresh object literals), so a reference to a vertex object is an edge index and
  the end it names, and writing through the reference changes that edge alone.
\<close>

datatype vertexRef = StartOf nat | EndOf nat

fun deref :: "edge list \<Rightarrow> vertexRef \<Rightarrow> vertex" where
  "deref edges (StartOf i) = start (edges ! i)"
| "deref edges (EndOf i) = endv (edges ! i)"

fun assign :: "edge list \<Rightarrow> vertexRef \<Rightarrow> vertex \<Rightarrow> edge list" where
  "assign edges (StartOf i) v = edges[i := (edges ! i)\<lparr>start := v\<rparr>]"
| "assign edges (EndOf i) v = edges[i := (edges ! i)\<lparr>endv := v\<rparr>]"

text \<open>
  An accumulator \<^verbatim>\<open>{x, y, vertex}\<close> of \<^verbatim>\<open>vertexForces\<close>. The map is iterated in
  insertion order, so it is a list of key and accumulator with distinct keys.
\<close>

record force =
  fx :: real
  fy :: real
  vertex_ref :: vertexRef

type_synonym vertexForces = "(vertexKey \<times> force) list"

subsection \<open>Rest lengths\<close>

text \<open>
  \<^verbatim>\<open>updateRestLengths\<close>: the value map built from the value objects (a later object
  overwrites an earlier one with the same id), then the loop body \<open>updateRestLength\<close>
  on every edge, where \<^verbatim>\<open>valueMap.get(edge.id) || 0\<close> is 0 for a missing id.
\<close>

definition valueMapOf :: "edgeValue list \<Rightarrow> (nat \<rightharpoonup> real)" where
  "valueMapOf edgeValues = fold (\<lambda>ev m. m(ev_edgeId ev \<mapsto> ev_value ev)) edgeValues Map.empty"

text \<open>
  \<^verbatim>\<open>!edge.originalLength\<close> holds for \<^verbatim>\<open>undefined\<close> and for the number 0.
\<close>

definition falsy :: "real option \<Rightarrow> bool" where
  "falsy v \<longleftrightarrow> v = None \<or> v = Some 0"

definition updateRestLength :: "(nat \<rightharpoonup> real) \<Rightarrow> edge \<Rightarrow> edge" where
  "updateRestLength valueMap e =
     (let evolutionValue = (case valueMap (eid e) of None \<Rightarrow> 0 | Some v \<Rightarrow> if v = 0 then 0 else v);
          e1 = (if falsy (originalLength e) then e\<lparr>originalLength := Some (len e)\<rparr> else e);
          factor = 1 + evolutionValue / 100
      in e1\<lparr>targetLength := map_option (\<lambda>l. l * factor) (originalLength e1)\<rparr>)"

definition updateRestLengths :: "edge list \<Rightarrow> edgeValue list \<Rightarrow> edge list" where
  "updateRestLengths edges edgeValues = map (updateRestLength (valueMapOf edgeValues)) edges"

subsection \<open>Spring forces\<close>

text \<open>
  Two things can go wrong in the accumulation loop: a division whose denominator is
  zero, and a read of \<^verbatim>\<open>.x\<close> on an accumulator that \<^verbatim>\<open>vertexForces.get\<close> did not find.
  Both are values of the model.
\<close>

datatype fault = DivisionByZero | MissingAccumulator

definition checkedDivide :: "real \<Rightarrow> real \<Rightarrow> fault + real" where
  "checkedDivide a b = (if b = 0 then Inl DivisionByZero else Inr (a / b))"

text \<open>
  \<^verbatim>\<open>applySpringForcesToEdges\<close>. The first loop (\<open>initForces\<close>) gives every key that has
  none a zero accumulator with a reference to the vertex that brought the key. The
  second loop (\<open>accumulateForces\<close>, its body \<open>springStep\<close>) skips an edge of current
  length zero and otherwise adds the spring force to the accumulator of the start key
  and subtracts it from that of the end key (\<open>addForce\<close>).
\<close>

definition initForce :: "vertexKey \<Rightarrow> vertexRef \<Rightarrow> vertexForces \<Rightarrow> vertexForces" where
  "initForce k r vf =
     (if map_of vf k = None then vf @ [(k, \<lparr>fx = 0, fy = 0, vertex_ref = r\<rparr>)] else vf)"

definition initForces :: "edge list \<Rightarrow> vertexForces" where
  "initForces edges =
     fold (\<lambda>i vf. initForce (getVertexKey (endv (edges ! i))) (EndOf i)
                    (initForce (getVertexKey (start (edges ! i))) (StartOf i) vf))
          [0..<length edges] []"

definition addForce :: "vertexKey \<Rightarrow> real \<Rightarrow> real \<Rightarrow> vertexForces \<Rightarrow> fault + vertexForces" where
  "addForce k dx dy vf =
     (case map_of vf k of
        None \<Rightarrow> Inl MissingAccumulator
      | Some f \<Rightarrow>
          Inr (map (\<lambda>entry. if fst entry = k
                             then (k, (snd entry)\<lparr>fx := fx (snd entry) + dx, fy := fy (snd entry) + dy\<rparr>)
                             else entry) vf))"

definition currentLengthOf :: "edge \<Rightarrow> real" where
  "currentLengthOf e =
     (let dx = vx (endv e) - vx (start e); dy = vy (endv e) - vy (start e)
      in sqrt (dx * dx + dy * dy))"

definition springStep :: "evolverConfig \<Rightarrow> edge \<Rightarrow> vertexForces \<Rightarrow> fault + vertexForces" where
  "springStep cfg e vf =
     (let startKey = getVertexKey (start e);
          endKey = getVertexKey (endv e);
          dx = vx (endv e) - vx (start e);
          dy = vy (endv e) - vy (start e);
          currentLength = currentLengthOf e
      in if currentLength = 0 then Inr vf
         else
           (let target = (case targetLength e of None \<Rightarrow> len e
                          | Some t \<Rightarrow> if t = 0 then len e else t);
                forceMagnitude = springConstant cfg * (currentLength - target)
            in case checkedDivide dx currentLength of
                 Inl flt \<Rightarrow> Inl flt
               | Inr dirX \<Rightarrow>
                  (case checkedDivide dy currentLength of
                     Inl flt \<Rightarrow> Inl flt
                   | Inr dirY \<Rightarrow>
                      (let forceX = dirX * forceMagnitude; forceY = dirY * forceMagnitude
                       in case addForce startKey forceX forceY vf of
                            Inl flt \<Rightarrow> Inl flt
                          | Inr vf1 \<Rightarrow> addForce endKey (- forceX) (- forceY) vf1))))"

fun accumulateForces :: "evolverConfig \<Rightarrow> edge list \<Rightarrow> vertexForces \<Rightarrow> fault + vertexForces" where
  "accumulateForces cfg [] vf = Inr vf"
| "accumulateForces cfg (e # es) vf =
     (case springStep cfg e vf of
        Inl flt \<Rightarrow> Inl flt
      | Inr vf1 \<Rightarrow> accumulateForces cfg es vf1)"

subsection \<open>Integration\<close>

definition wrapCoordinate :: "real \<Rightarrow> real \<Rightarrow> real \<Rightarrow> real" where
  "wrapCoordinate coord lo hi =
     (let extent = hi - lo
      in if coord < lo then coord + extent
         else if coord > hi then coord - extent
         else coord)"

text \<open>
  \<^verbatim>\<open>updateVertexPositions\<close>, its loop body \<open>moveVertex\<close> for one accumulator: get or
  initialise the velocity (a key that is not in the map starts from zero), add force
  times time step, damp (\<open>integrate\<close>), store the velocity under the key, move the
  vertex and wrap both coordinates.
\<close>

definition startingVelocity :: "(vertexKey \<rightharpoonup> real \<times> real) \<Rightarrow> vertexKey \<Rightarrow> real \<times> real" where
  "startingVelocity vel k = (case vel k of None \<Rightarrow> (0, 0) | Some v \<Rightarrow> v)"

definition integrate :: "evolverConfig \<Rightarrow> real \<times> real \<Rightarrow> force \<Rightarrow> real \<times> real" where
  "integrate cfg v f =
     ((fst v + fx f * timeStep cfg) * dampingFactor cfg,
      (snd v + fy f * timeStep cfg) * dampingFactor cfg)"

definition moveVertex ::
  "evolverConfig \<Rightarrow> vertexKey \<times> force \<Rightarrow> edge list \<times> (vertexKey \<rightharpoonup> real \<times> real)
     \<Rightarrow> edge list \<times> (vertexKey \<rightharpoonup> real \<times> real)" where
  "moveVertex cfg entry s =
     (let vertexKey = fst entry; f = snd entry; edges = fst s; vel = snd s;
          velocity = integrate cfg (startingVelocity vel vertexKey) f;
          vertex = deref edges (vertex_ref f);
          newX = wrapCoordinate (vx vertex + fst velocity * timeStep cfg) (- 8) 8;
          newY = wrapCoordinate (vy vertex + snd velocity * timeStep cfg) (- 6) 6
      in (assign edges (vertex_ref f) \<lparr>vx = newX, vy = newY\<rparr>,
          vel(vertexKey \<mapsto> velocity)))"

definition updateVertexPositions ::
  "evolverConfig \<Rightarrow> vertexForces \<Rightarrow> edge list \<times> (vertexKey \<rightharpoonup> real \<times> real)
     \<Rightarrow> edge list \<times> (vertexKey \<rightharpoonup> real \<times> real)" where
  "updateVertexPositions cfg vertexForces s = fold (moveVertex cfg) vertexForces s"

text \<open>The last loop of \<^verbatim>\<open>applySpringForcesToEdges\<close> recomputes every length.\<close>

definition refreshLength :: "edge \<Rightarrow> edge" where
  "refreshLength e = e\<lparr>len := currentLengthOf e\<rparr>"

definition applySpringForcesToEdges :: "evolver \<Rightarrow> edge list \<Rightarrow> fault + evolver \<times> edge list" where
  "applySpringForcesToEdges ev edges =
     (case accumulateForces (config ev) edges (initForces edges) of
        Inl flt \<Rightarrow> Inl flt
      | Inr vertexForces \<Rightarrow>
          (let moved = updateVertexPositions (config ev) vertexForces (edges, vertexVelocities ev)
           in Inr (ev\<lparr>vertexVelocities := snd moved\<rparr>, map refreshLength (fst moved))))"

text \<open>
  \<^verbatim>\<open>applyEdgeValues\<close> reads the edge array of the mesh (\<^verbatim>\<open>getEdgeData\<close> returns
  \<^verbatim>\<open>this.edges\<close> itself) and ends with \<^verbatim>\<open>voronoiMesh.updateMesh()\<close>, which copies
  coordinates and colours into the render buffers and writes nothing to the edges.
\<close>

definition applyEdgeValues :: "evolver \<Rightarrow> edge list \<Rightarrow> edgeValue list \<Rightarrow> fault + evolver \<times> edge list" where
  "applyEdgeValues ev edges edgeValues =
     applySpringForcesToEdges ev (updateRestLengths edges edgeValues)"

section \<open>Notions used in the statements\<close>

text \<open>The edge index behind a vertex reference.\<close>

definition refIndex :: "vertexRef \<Rightarrow> nat" where
  "refIndex r = (case r of StartOf i \<Rightarrow> i | EndOf i \<Rightarrow> i)"

text \<open>
  The fields of an edge that the evolver is not meant to write: everything except
  \<open>originalLength\<close>, \<open>targetLength\<close>, \<open>len\<close> and the two vertices.
\<close>

definition frameOf :: "edge \<Rightarrow> nat \<times> nat list \<times> nat list \<times> nat \<times> real" where
  "frameOf e = (eid e, connectedEdges e, connectedCells e, acuteAngleCount e, expandValue e)"

text \<open>
  The accumulator map is well keyed for an edge list when its keys are distinct and every
  accumulator sits under the key of the vertex it refers to. Its shape is the list of its
  keys and vertex references, which the accumulation loop leaves alone.
\<close>

definition keyed :: "edge list \<Rightarrow> vertexForces \<Rightarrow> bool" where
  "keyed edges vf \<longleftrightarrow> distinct (map fst vf) \<and>
     (\<forall>entry \<in> set vf. refIndex (vertex_ref (snd entry)) < length edges \<and>
         fst entry = getVertexKey (deref edges (vertex_ref (snd entry))))"

definition shape :: "vertexForces \<Rightarrow> (vertexKey \<times> vertexRef) list" where
  "shape vf = map (\<lambda>entry. (fst entry, vertex_ref (snd entry))) vf"

text \<open>The edge array and the velocity map after a pass (empty when the pass faulted).\<close>

definition edgesOf :: "fault + evolver \<times> edge list \<Rightarrow> edge list" where
  "edgesOf r = (case r of Inl flt \<Rightarrow> [] | Inr res \<Rightarrow> snd res)"

definition velocitiesOf :: "fault + evolver \<times> edge list \<Rightarrow> (vertexKey \<rightharpoonup> real \<times> real)" where
  "velocitiesOf r = (case r of Inl flt \<Rightarrow> Map.empty | Inr res \<Rightarrow> vertexVelocities (fst res))"

text \<open>
  The vertex references of the accumulators, in the order of the map, and a vertex moved
  by a velocity for one time step and wrapped into the mesh bounds, as
  \<^verbatim>\<open>updateVertexPositions\<close> does.
\<close>

definition refsOf :: "vertexForces \<Rightarrow> vertexRef list" where
  "refsOf vf = map (\<lambda>entry. vertex_ref (snd entry)) vf"

definition advance :: "evolverConfig \<Rightarrow> real \<times> real \<Rightarrow> vertex \<Rightarrow> vertex" where
  "advance cfg velocity v =
     \<lparr>vx = wrapCoordinate (vx v + fst velocity * timeStep cfg) (- 8) 8,
      vy = wrapCoordinate (vy v + snd velocity * timeStep cfg) (- 6) 6\<rparr>"

subsection \<open>Angles\<close>








subsection \<open>Connectivity\<close>

text \<open>The two grid keys of an edge.\<close>

definition bucketsOf :: "edge \<Rightarrow> gridKey set" where
  "bucketsOf e = {getGridKey (start e), getGridKey (endv e)}"

subsection \<open>Edge extraction\<close>

text \<open>The key of an edge of the list, from its stored endpoints.\<close>

definition keyOfEdge :: "edge \<Rightarrow> edgeKey" where
  "keyOfEdge e = createEdgeKey (vx (start e), vy (start e)) (vx (endv e), vy (endv e))"

text \<open>
  The candidate edges in the order the two loops visit them: the cell index with a
  consecutive pair of the polygon of that cell.
\<close>

type_synonym candidate = "nat \<times> point \<times> point"

definition cellPairs :: "cell \<Rightarrow> (point \<times> point) list" where
  "cellPairs c = (case polygon c of None \<Rightarrow> [] | Some p \<Rightarrow> polygonPairs p)"

fun candidatesFrom :: "nat \<Rightarrow> cell list \<Rightarrow> candidate list" where
  "candidatesFrom n [] = []"
| "candidatesFrom n (c # cs) = map (\<lambda>pr. (n, pr)) (cellPairs c) @ candidatesFrom (Suc n) cs"

definition keyOfCandidate :: "candidate \<Rightarrow> edgeKey" where
  "keyOfCandidate t = createEdgeKey (fst (snd t)) (snd (snd t))"

definition processCandidate :: "candidate \<Rightarrow> extraction \<Rightarrow> extraction" where
  "processCandidate t s = processPair (fst t) (fst (snd t)) (snd (snd t)) s"

text \<open>The cells that own a key, in the order of the traversal.\<close>

definition ownersOf :: "edgeKey \<Rightarrow> candidate list \<Rightarrow> nat list" where
  "ownersOf k ts = map fst (filter (\<lambda>t. keyOfCandidate t = k) ts)"

text \<open>The keys of the consecutive pairs of a cell, and a cell traversed the other way round.\<close>

definition cellKeys :: "cell \<Rightarrow> edgeKey set" where
  "cellKeys c = (\<lambda>pr. createEdgeKey (fst pr) (snd pr)) ` set (cellPairs c)"

definition reverseWinding :: "cell \<Rightarrow> cell" where
  "reverseWinding c = c\<lparr>polygon := map_option rev (polygon c)\<rparr>"

text \<open>
  What the extraction state is after the candidates \<open>ts\<close>: a key that no candidate has
  is not in the map; a key that some candidate has is mapped to the index of an edge
  that was built from the first candidate with the key and is owned by the cells of all
  candidates with the key; and every edge is found under its own key.
\<close>

definition extracted :: "candidate list \<Rightarrow> extraction \<Rightarrow> bool" where
  "extracted ts s \<longleftrightarrow>
     (\<forall>k. case List.find (\<lambda>t. keyOfCandidate t = k) ts of
            None \<Rightarrow> snd s k = None
          | Some t \<Rightarrow>
              (\<exists>i < length (fst s). snd s k = Some i
                 \<and> fst s ! i = (newEdge i (fst (snd t)) (snd (snd t)) (fst t))
                                 \<lparr>connectedCells := ownersOf k ts\<rparr>))
     \<and> (\<forall>i < length (fst s). snd s (keyOfEdge (fst s ! i)) = Some i)"

text \<open>
  The order in which \<^verbatim>\<open>createEdgeKey\<close> puts two endpoints, a point printed with six
  decimals, and two points that differ by less than \<open>10^-6\<close> in each coordinate.
\<close>

definition lexLess :: "point \<Rightarrow> point \<Rightarrow> bool" where
  "lexLess a b \<longleftrightarrow> fst a < fst b \<or> (fst a = fst b \<and> snd a < snd b)"

definition printed :: "point \<Rightarrow> fixed \<times> fixed" where
  "printed p = (toFixed6 (fst p), toFixed6 (snd p))"

definition near :: "point \<Rightarrow> point \<Rightarrow> bool" where
  "near a b \<longleftrightarrow> \<bar>fst a - fst b\<bar> < 1 / 10 ^ 6 \<and> \<bar>snd a - snd b\<bar> < 1 / 10 ^ 6"

subsection \<open>Concrete inputs\<close>

text \<open>
  One horizontal edge from \<open>(0, 0)\<close> to \<open>(1, 0)\<close> as extraction builds it, and the first
  generation on it: \<^verbatim>\<open>calculateEdgeValues\<close> with the default rate 5, then
  \<^verbatim>\<open>applyEdgeValues\<close> on a fresh evolver.
\<close>

definition unitEdges :: "edge list" where
  "unitEdges = [newEdge 0 (0, 0) (1, 0) 0]"

definition firstGeneration :: "fault + evolver \<times> edge list" where
  "firstGeneration =
     applyEdgeValues newEvolver (fst (calculateEdgeValues unitEdges 5))
       (snd (calculateEdgeValues unitEdges 5))"

text \<open>The same edge with a target length so close to its length that no vertex leaves
  its six-decimal position key in one step.\<close>

definition slowEdges :: "edge list" where
  "slowEdges = [(newEdge 0 (0, 0) (1, 0) 0)\<lparr>targetLength := Some (99999 / 100000)\<rparr>]"

text \<open>Two edges, the second with a baseline captured earlier.\<close>

definition mixedEdges :: "edge list" where
  "mixedEdges = [newEdge 0 (0, 0) (1, 0) 0,
                 (newEdge 1 (1, 0) (3, 0) 0)\<lparr>originalLength := Some 1\<rparr>]"

text \<open>
  The velocity map and the edge after one pass on \<open>slowEdges\<close> with a fresh evolver, and
  the velocity map after the second pass.
\<close>

definition slowVelocities :: "vertexKey \<rightharpoonup> real \<times> real" where
  "slowVelocities =
     [(Fixed False 0, Fixed False 0) \<mapsto> (51 / 200000000, 0),
      (Fixed False 1000000, Fixed False 0) \<mapsto> (- (51 / 200000000), 0)]"

definition slowEdges1 :: "edge list" where
  "slowEdges1 =
     [\<lparr>eid = 0, start = \<lparr>vx = 51 / 2000000000, vy = 0\<rparr>,
       endv = \<lparr>vx = 1999999949 / 2000000000, vy = 0\<rparr>,
       len = 999999949 / 1000000000, originalLength = None,
       targetLength = Some (99999 / 100000), connectedCells = [0],
       connectedEdges = [], acuteAngleCount = 0, expandValue = 0\<rparr>]"

definition slowVelocities2 :: "vertexKey \<rightharpoonup> real \<times> real" where
  "slowVelocities2 =
     [(Fixed False 0, Fixed False 0) \<mapsto> (940899 / 2000000000000, 0),
      (Fixed False 1000000, Fixed False 0) \<mapsto> (- (940899 / 2000000000000), 0)]"

text \<open>An edge that ends on the right border and is far shorter than its target length.\<close>

definition borderEdges :: "edge list" where
  "borderEdges = [(newEdge 0 (15 / 2, 0) (8, 0) 0)\<lparr>targetLength := Some 100\<rparr>]"

text \<open>Two edges that meet at \<open>(1, 0)\<close> and a third one far away.\<close>

definition cornerEdges :: "edge list" where
  "cornerEdges = [newEdge 0 (0, 0) (1, 0) 0, newEdge 1 (1, 0) (1, 1) 0, newEdge 2 (5, 5) (6, 5) 1]"

text \<open>Two triangles that share the edge between \<open>(1, 0)\<close> and \<open>(0, 1)\<close>, which the
  first runs through one way and the second the other way.\<close>

definition twoTriangles :: "cell list" where
  "twoTriangles =
     [\<lparr>cell_id = 0, polygon = Some [(0, 0), (1, 0), (0, 1)], center = (1 / 3, 1 / 3)\<rparr>,
      \<lparr>cell_id = 1, polygon = Some [(1, 0), (1, 1), (0, 1)], center = (2 / 3, 2 / 3)\<rparr>]"

text \<open>A polygon that lists its first vertex twice.\<close>

definition duplicateVertexCell :: cell where
  "duplicateVertexCell =
     \<lparr>cell_id = 0, polygon = Some [(0, 0), (0, 0), (1, 0), (0, 1)], center = (1 / 3, 1 / 3)\<rparr>"

text \<open>
  Two triangles. The first holds the pair from \<open>(0.0000001, 5)\<close> to \<open>(0, 0)\<close>, the
  second the pair from \<open>(0.0000001, 0)\<close> to \<open>(0, 5)\<close>: with six decimals both pairs
  print the endpoints \<open>(0, 0)\<close> and \<open>(0, 5)\<close>.
\<close>

definition noisyTriangles :: "cell list" where
  "noisyTriangles =
     [\<lparr>cell_id = 0, polygon = Some [(1 / 10 ^ 7, 5), (0, 0), (- 3, 2)], center = (- 1, 2)\<rparr>,
      \<lparr>cell_id = 1, polygon = Some [(1 / 10 ^ 7, 0), (0, 5), (3, 2)], center = (1, 2)\<rparr>]"

section \<open>The expand/shrink rule\<close>

text \<open>
  Claim C2. After \<^verbatim>\<open>calculateEdgeValues\<close> with change rate \<open>changeRate\<close>, every edge
  with a positive acute-angle count has \<open>expandValue = changeRate * acuteAngleCount\<close>,
  every other edge has \<open>expandValue = - changeRate\<close> whatever its list of connected
  edges is, the count itself is not touched, and the returned value object of the edge
  carries the same number. With rate 5, a count of 3 gives 15 and a count of 0 gives
  \<open>- 5\<close> (the two instances below, on an edge list holding one edge of each kind; the
  second edge has two connected edges and still gets the flat \<open>- 5\<close>).
\<close>

theorem calculateEdgeValues_rule:
  assumes "i < length edges"
  shows "expandValue (fst (calculateEdgeValues edges changeRate) ! i) =
           (if acuteAngleCount (edges ! i) > 0
            then changeRate * real (acuteAngleCount (edges ! i)) else - changeRate)
       \<and> acuteAngleCount (fst (calculateEdgeValues edges changeRate) ! i) =
           acuteAngleCount (edges ! i)
       \<and> ev_value (snd (calculateEdgeValues edges changeRate) ! i) =
           expandValue (fst (calculateEdgeValues edges changeRate) ! i)
       \<and> ev_edgeId (snd (calculateEdgeValues edges changeRate) ! i) = eid (edges ! i)"
  using assms by (simp add: calculateEdgeValues_def edgeValueOf_def Let_def)

theorem calculateEdgeValues_rule_witness:
  "(0::nat) < length [(newEdge 0 (0, 0) (1, 0) 0)\<lparr>acuteAngleCount := 3\<rparr>,
                      (newEdge 1 (1, 0) (2, 0) 0)\<lparr>connectedEdges := [0, 2]\<rparr>]
   \<and> expandValue (fst (calculateEdgeValues
        [(newEdge 0 (0, 0) (1, 0) 0)\<lparr>acuteAngleCount := 3\<rparr>,
         (newEdge 1 (1, 0) (2, 0) 0)\<lparr>connectedEdges := [0, 2]\<rparr>] 5) ! 0) = 15
   \<and> expandValue (fst (calculateEdgeValues
        [(newEdge 0 (0, 0) (1, 0) 0)\<lparr>acuteAngleCount := 3\<rparr>,
         (newEdge 1 (1, 0) (2, 0) 0)\<lparr>connectedEdges := [0, 2]\<rparr>] 5) ! 1) = - 5"
  using calculateEdgeValues_rule [of 0 "[(newEdge 0 (0, 0) (1, 0) 0)\<lparr>acuteAngleCount := 3\<rparr>,
         (newEdge 1 (1, 0) (2, 0) 0)\<lparr>connectedEdges := [0, 2]\<rparr>]" 5]
        calculateEdgeValues_rule [of 1 "[(newEdge 0 (0, 0) (1, 0) 0)\<lparr>acuteAngleCount := 3\<rparr>,
         (newEdge 1 (1, 0) (2, 0) 0)\<lparr>connectedEdges := [0, 2]\<rparr>]" 5]
  by (simp add: newEdge_def)

section \<open>Force accumulation\<close>

lemma currentLengthOf_zero_iff:
  "currentLengthOf e = 0 \<longleftrightarrow> vx (start e) = vx (endv e) \<and> vy (start e) = vy (endv e)"
proof -
  have "sqrt (a * a + b * b) = 0 \<longleftrightarrow> a = 0 \<and> b = 0" for a b :: real
    by (simp add: add_nonneg_eq_0_iff)
  then show ?thesis
    by (auto simp: currentLengthOf_def Let_def)
qed

lemma springStep_zero_length:
  "currentLengthOf e = 0 \<Longrightarrow> springStep cfg e vf = Inr vf"
  by (simp add: springStep_def Let_def)

lemma addForce_not_div: "addForce k dx dy vf \<noteq> Inl DivisionByZero"
  by (simp add: addForce_def split: option.splits)

lemma springStep_not_div: "springStep cfg e vf \<noteq> Inl DivisionByZero"
  by (auto simp: springStep_def Let_def checkedDivide_def addForce_not_div split: sum.splits)

lemma accumulateForces_not_div: "accumulateForces cfg es vf \<noteq> Inl DivisionByZero"
  by (induction es arbitrary: vf) (auto simp: springStep_not_div split: sum.splits)

lemma accumulateForces_skips_zero:
  "accumulateForces cfg es vf = accumulateForces cfg (filter (\<lambda>e. currentLengthOf e \<noteq> 0) es) vf"
  by (induction es arbitrary: vf) (auto simp: springStep_zero_length split: sum.splits)

subsection \<open>Every endpoint has an accumulator\<close>

lemma initForce_keys: "fst ` set (initForce k r vf) = insert k (fst ` set vf)"
  by (auto simp: initForce_def map_of_eq_None_iff)

lemma initForce_keyed:
  "keyed edges vf \<Longrightarrow> refIndex r < length edges \<Longrightarrow> k = getVertexKey (deref edges r)
     \<Longrightarrow> keyed edges (initForce k r vf)"
  by (auto simp: keyed_def initForce_def map_of_eq_None_iff)

lemma initForces_fold:
  "keyed edges vf \<Longrightarrow> set is \<subseteq> {..<length edges} \<Longrightarrow>
   keyed edges (fold (\<lambda>i vf. initForce (getVertexKey (endv (edges ! i))) (EndOf i)
                    (initForce (getVertexKey (start (edges ! i))) (StartOf i) vf)) is vf)
   \<and> fst ` set (fold (\<lambda>i vf. initForce (getVertexKey (endv (edges ! i))) (EndOf i)
                    (initForce (getVertexKey (start (edges ! i))) (StartOf i) vf)) is vf)
      = fst ` set vf \<union> (\<Union>i \<in> set is. {getVertexKey (start (edges ! i)), getVertexKey (endv (edges ! i))})"
proof (induction "is" arbitrary: vf)
  case Nil
  then show ?case by simp
next
  case (Cons i "is")
  let ?vf1 = "initForce (getVertexKey (endv (edges ! i))) (EndOf i)
                    (initForce (getVertexKey (start (edges ! i))) (StartOf i) vf)"
  have k: "keyed edges ?vf1"
    using Cons.prems by (intro initForce_keyed) (auto simp: refIndex_def)
  have s: "set is \<subseteq> {..<length edges}" using Cons.prems by auto
  show ?case
    using Cons.IH [OF k s] by (auto simp: initForce_keys)
qed

lemma initForces_facts:
  "keyed edges (initForces edges) \<and>
   fst ` set (initForces edges) =
     (\<Union>i \<in> {..<length edges}. {getVertexKey (start (edges ! i)), getVertexKey (endv (edges ! i))})"
proof -
  have k: "keyed edges []" by (simp add: keyed_def)
  have s: "set [0..<length edges] \<subseteq> {..<length edges}" by auto
  show ?thesis
    unfolding initForces_def using initForces_fold [OF k s] by (simp add: lessThan_atLeast0)
qed

lemma initForces_keys:
  "i < length edges \<Longrightarrow> getVertexKey (start (edges ! i)) \<in> fst ` set (initForces edges)
     \<and> getVertexKey (endv (edges ! i)) \<in> fst ` set (initForces edges)"
  using initForces_facts [of edges] by blast

lemma addForce_total:
  "k \<in> fst ` set vf \<Longrightarrow> \<exists>vf'. addForce k dx dy vf = Inr vf' \<and> shape vf' = shape vf"
proof -
  assume "k \<in> fst ` set vf"
  then obtain f where "map_of vf k = Some f"
    by (metis map_of_eq_None_iff not_Some_eq)
  then show ?thesis
    by (auto simp: addForce_def shape_def)
qed

lemma shape_keys: "shape vf' = shape vf \<Longrightarrow> fst ` set vf' = fst ` set vf"
proof -
  assume "shape vf' = shape vf"
  then have "map fst (shape vf') = map fst (shape vf)" by simp
  then have "map fst vf' = map fst vf" by (simp add: shape_def comp_def)
  then show ?thesis by (metis set_map)
qed

lemma springStep_total:
  assumes "getVertexKey (start e) \<in> fst ` set vf" "getVertexKey (endv e) \<in> fst ` set vf"
  shows "\<exists>vf'. springStep cfg e vf = Inr vf' \<and> shape vf' = shape vf"
proof (cases "currentLengthOf e = 0")
  case True
  then show ?thesis by (simp add: springStep_zero_length)
next
  case False
  define fm where "fm = springConstant cfg * (currentLengthOf e - (case targetLength e of None \<Rightarrow> len e
                          | Some t \<Rightarrow> if t = 0 then len e else t))"
  define forceX where "forceX = (vx (endv e) - vx (start e)) / currentLengthOf e * fm"
  define forceY where "forceY = (vy (endv e) - vy (start e)) / currentLengthOf e * fm"
  obtain vf1 where 1: "addForce (getVertexKey (start e)) forceX forceY vf = Inr vf1" "shape vf1 = shape vf"
    using addForce_total [OF assms(1)] by blast
  have "getVertexKey (endv e) \<in> fst ` set vf1"
    using assms(2) shape_keys [OF 1(2)] by simp
  then obtain vf2 where 2: "addForce (getVertexKey (endv e)) (- forceX) (- forceY) vf1 = Inr vf2" "shape vf2 = shape vf1"
    using addForce_total by blast
  have "springStep cfg e vf = Inr vf2"
    using False 1 2 by (simp add: springStep_def Let_def checkedDivide_def fm_def forceX_def forceY_def)
  then show ?thesis using 1 2 by simp
qed

lemma accumulateForces_total:
  "\<forall>e \<in> set es. getVertexKey (start e) \<in> fst ` set vf \<and> getVertexKey (endv e) \<in> fst ` set vf
   \<Longrightarrow> \<exists>vf'. accumulateForces cfg es vf = Inr vf' \<and> shape vf' = shape vf"
proof (induction es arbitrary: vf)
  case Nil
  then show ?case by simp
next
  case (Cons e es)
  obtain vf1 where 1: "springStep cfg e vf = Inr vf1" "shape vf1 = shape vf"
    using springStep_total [of e vf cfg] Cons.prems by auto
  have "\<forall>e \<in> set es. getVertexKey (start e) \<in> fst ` set vf1 \<and> getVertexKey (endv e) \<in> fst ` set vf1"
    using Cons.prems shape_keys [OF 1(2)] by simp
  from Cons.IH [OF this] obtain vf2 where "accumulateForces cfg es vf1 = Inr vf2" "shape vf2 = shape vf1"
    by blast
  then show ?case using 1 by simp
qed

lemma accumulateForces_init_total:
  "\<exists>vf. accumulateForces cfg edges (initForces edges) = Inr vf \<and> shape vf = shape (initForces edges)"
proof (rule accumulateForces_total)
  show "\<forall>e\<in>set edges. getVertexKey (start e) \<in> fst ` set (initForces edges) \<and>
          getVertexKey (endv e) \<in> fst ` set (initForces edges)"
    using initForces_keys by (metis in_set_conv_nth)
qed

lemma keyed_shape: "shape vf' = shape vf \<Longrightarrow> keyed edges vf \<Longrightarrow> keyed edges vf'"
proof -
  assume a: "shape vf' = shape vf" and k: "keyed edges vf"
  have "keyed edges vf \<longleftrightarrow> distinct (map fst (shape vf)) \<and>
     (\<forall>p \<in> set (shape vf). refIndex (snd p) < length edges \<and> fst p = getVertexKey (deref edges (snd p)))" for vf
    by (auto simp: keyed_def shape_def comp_def)
  then show ?thesis using a k by simp
qed

lemma applySpringForcesToEdges_total:
  "\<exists>ev' edges'. applySpringForcesToEdges ev edges = Inr (ev', edges')"
  using accumulateForces_init_total [of "config ev" edges]
  by (auto simp: applySpringForcesToEdges_def Let_def)

text \<open>
  Claim C9. An edge whose two endpoints coincide has current length zero; the force step
  of such an edge returns the accumulators as they are, so it adds nothing to either
  endpoint, and the whole accumulation gives the same result as on the list without the
  zero-length edges. No division with a zero denominator is evaluated, by one edge or
  by the loop, and on the accumulators that the first loop initialises the accumulation
  returns.
\<close>

theorem zero_length_edge_skipped:
  "(vx (start e) = vx (endv e) \<and> vy (start e) = vy (endv e) \<longrightarrow> currentLengthOf e = 0)
   \<and> (currentLengthOf e = 0 \<longrightarrow> springStep cfg e vf = Inr vf)
   \<and> springStep cfg e vf \<noteq> Inl DivisionByZero
   \<and> accumulateForces cfg edges vf =
       accumulateForces cfg (filter (\<lambda>e. currentLengthOf e \<noteq> 0) edges) vf
   \<and> accumulateForces cfg edges vf \<noteq> Inl DivisionByZero
   \<and> (\<exists>vf'. accumulateForces cfg edges (initForces edges) = Inr vf')"
  using currentLengthOf_zero_iff [of e] springStep_zero_length [of e cfg vf]
    springStep_not_div [of cfg e vf] accumulateForces_skips_zero [of cfg edges vf]
    accumulateForces_not_div [of cfg edges vf] accumulateForces_init_total [of cfg edges]
  by blast

theorem zero_length_edge_skipped_witness:
  "vx (start (newEdge 0 (2, 3) (2, 3) 0)) = vx (endv (newEdge 0 (2, 3) (2, 3) 0))
   \<and> vy (start (newEdge 0 (2, 3) (2, 3) 0)) = vy (endv (newEdge 0 (2, 3) (2, 3) 0))
   \<and> currentLengthOf (newEdge 0 (2, 3) (2, 3) 0) = 0
   \<and> springStep defaultConfig (newEdge 0 (2, 3) (2, 3) 0) (initForces [newEdge 0 (2, 3) (2, 3) 0])
       = Inr (initForces [newEdge 0 (2, 3) (2, 3) 0])"
  using zero_length_edge_skipped [of "newEdge 0 (2, 3) (2, 3) 0" defaultConfig
      "initForces [newEdge 0 (2, 3) (2, 3) 0]"]
  by (simp add: newEdge_def)

section \<open>The frame of one pass\<close>

lemma frameOf_updateRestLength: "frameOf (updateRestLength m e) = frameOf e"
  by (simp add: updateRestLength_def frameOf_def Let_def)

lemma frame_updateRestLengths: "map frameOf (updateRestLengths edges evs) = map frameOf edges"
  by (simp add: updateRestLengths_def frameOf_updateRestLength)

lemma frame_list_update:
  "frameOf e' = frameOf (edges ! i) \<Longrightarrow> map frameOf (edges[i := e']) = map frameOf edges"
  by (cases "i < length edges") (simp_all add: map_update list_update_same_conv list_update_beyond)

lemma frame_assign: "map frameOf (assign edges r v) = map frameOf edges"
  by (cases r) (simp_all add: frame_list_update frameOf_def)

lemma frame_moveVertex: "map frameOf (fst (moveVertex cfg entry s)) = map frameOf (fst s)"
  by (simp add: moveVertex_def Let_def frame_assign)

lemma frame_updateVertexPositions:
  "map frameOf (fst (updateVertexPositions cfg vf s)) = map frameOf (fst s)"
  unfolding updateVertexPositions_def
  by (induction vf arbitrary: s) (simp_all add: frame_moveVertex)

lemma frameOf_refreshLength: "frameOf (refreshLength e) = frameOf e"
  by (simp add: refreshLength_def frameOf_def)

lemma frame_applySpringForcesToEdges:
  assumes "applySpringForcesToEdges ev edges = Inr (ev', edges')"
  shows "map frameOf edges' = map frameOf edges"
proof -
  obtain vf where "edges' = map refreshLength
      (fst (updateVertexPositions (config ev) vf (edges, vertexVelocities ev)))"
    using assms by (auto simp: applySpringForcesToEdges_def Let_def split: sum.splits)
  then have "map frameOf edges' =
      map frameOf (fst (updateVertexPositions (config ev) vf (edges, vertexVelocities ev)))"
    by (simp add: frameOf_refreshLength)
  then show ?thesis
    by (simp add: frame_updateVertexPositions)
qed

text \<open>
  Claim C10. One pass \<^verbatim>\<open>applyEdgeValues\<close> returns, the edge list keeps its length, and
  every edge keeps its \<open>id\<close>, \<open>connectedEdges\<close>, \<open>connectedCells\<close>,
  \<open>acuteAngleCount\<close> and \<open>expandValue\<close>: only \<open>originalLength\<close>,
  \<open>targetLength\<close>, \<open>length\<close> and the vertex coordinates can differ.
\<close>

theorem applyEdgeValues_frame:
  "\<exists>ev' edges'. applyEdgeValues ev edges edgeValues = Inr (ev', edges')
     \<and> length edges' = length edges
     \<and> (\<forall>i < length edges.
          eid (edges' ! i) = eid (edges ! i)
        \<and> connectedEdges (edges' ! i) = connectedEdges (edges ! i)
        \<and> connectedCells (edges' ! i) = connectedCells (edges ! i)
        \<and> acuteAngleCount (edges' ! i) = acuteAngleCount (edges ! i)
        \<and> expandValue (edges' ! i) = expandValue (edges ! i))"
proof -
  obtain ev' edges' where r: "applyEdgeValues ev edges edgeValues = Inr (ev', edges')"
    using applySpringForcesToEdges_total unfolding applyEdgeValues_def by blast
  then have m: "map frameOf edges' = map frameOf edges"
    unfolding applyEdgeValues_def
    using frame_applySpringForcesToEdges frame_updateRestLengths by metis
  then have l: "length edges' = length edges"
    by (metis length_map)
  have "frameOf (edges' ! i) = frameOf (edges ! i)" if "i < length edges" for i
    using that m l by (metis nth_map)
  then show ?thesis
    using r l by (auto simp: frameOf_def)
qed

theorem applyEdgeValues_frame_witness:
  "0 < length (fst (calculateEdgeValues unitEdges 5))
   \<and> length (edgesOf firstGeneration) = 1
   \<and> eid (edgesOf firstGeneration ! 0) = 0
   \<and> connectedEdges (edgesOf firstGeneration ! 0) = []
   \<and> connectedCells (edgesOf firstGeneration ! 0) = [0]
   \<and> acuteAngleCount (edgesOf firstGeneration ! 0) = 0
   \<and> expandValue (edgesOf firstGeneration ! 0) = - 5"
  using applyEdgeValues_frame [of newEvolver "fst (calculateEdgeValues unitEdges 5)"
      "snd (calculateEdgeValues unitEdges 5)"]
  by (auto simp: firstGeneration_def edgesOf_def unitEdges_def newEdge_def calculateEdgeValues_def
      edgeValueOf_def)

section \<open>The first generation on one edge\<close>

lemma currentLengthOf_horizontal:
  "vy (endv e) = vy (start e) \<Longrightarrow> currentLengthOf e = \<bar>vx (endv e) - vx (start e)\<bar>"
  by (simp add: currentLengthOf_def)

lemmas pass_defs = applyEdgeValues_def newEdge_def updateRestLengths_def updateRestLength_def
     valueMapOf_def falsy_def applySpringForcesToEdges_def newEvolver_def defaultConfig_def initForces_def initForce_def
     getVertexKey_def springStep_def currentLengthOf_horizontal checkedDivide_def addForce_def
     updateVertexPositions_def moveVertex_def integrate_def startingVelocity_def wrapCoordinate_def refreshLength_def Let_def
     calculateEdgeValues_def edgeValueOf_def toFixed6_def

lemma firstGeneration_result:
  "firstGeneration = Inr (\<lparr>config = defaultConfig, vertexVelocities =
       [(Fixed False 0, Fixed False 0) \<mapsto> (51 / 40000, 0),
        (Fixed False 1000000, Fixed False 0) \<mapsto> (- (51 / 40000), 0)]\<rparr>,
     [\<lparr>eid = 0, start = \<lparr>vx = 51 / 400000, vy = 0\<rparr>,
       endv = \<lparr>vx = 399949 / 400000, vy = 0\<rparr>, len = 199949 / 200000,
       originalLength = Some 1, targetLength = Some (19 / 20),
       connectedCells = [0], connectedEdges = [], acuteAngleCount = 0,
       expandValue = - 5\<rparr>])"
  by (simp add: firstGeneration_def unitEdges_def pass_defs)

section \<open>Rest lengths\<close>

lemma valueMapOf_fold:
  "fold (\<lambda>ev m. m(ev_edgeId ev \<mapsto> ev_value ev)) evs m0 =
     m0 ++ map_of (rev (map (\<lambda>ev. (ev_edgeId ev, ev_value ev)) evs))"
  by (induction evs arbitrary: m0) (simp_all add: map_add_upd_left)

lemma valueMapOf_map_of:
  "valueMapOf evs = map_of (rev (map (\<lambda>ev. (ev_edgeId ev, ev_value ev)) evs))"
  by (simp add: valueMapOf_def valueMapOf_fold)

lemma valueMapOf_calculateEdgeValues:
  assumes "distinct (map eid edges)" "i < length edges"
  shows "valueMapOf (snd (calculateEdgeValues edges changeRate)) (eid (edges ! i)) =
           Some (edgeValueOf changeRate (edges ! i))"
proof -
  let ?xs = "map (\<lambda>e. (eid e, edgeValueOf changeRate e)) edges"
  have m: "valueMapOf (snd (calculateEdgeValues edges changeRate)) = map_of (rev ?xs)"
    by (simp add: valueMapOf_map_of calculateEdgeValues_def Let_def comp_def)
  have d: "distinct (map fst (rev ?xs))"
    using assms(1) by (simp add: rev_map [symmetric] comp_def)
  have "(eid (edges ! i), edgeValueOf changeRate (edges ! i)) \<in> set (rev ?xs)"
    using assms(2) by auto
  then show ?thesis
    using m d by simp
qed

lemma updateRestLength_fields:
  "(falsy (originalLength e) \<longrightarrow> originalLength (updateRestLength m e) = Some (len e))
   \<and> (\<not> falsy (originalLength e) \<longrightarrow> originalLength (updateRestLength m e) = originalLength e)
   \<and> (\<exists>b. originalLength (updateRestLength m e) = Some b
          \<and> targetLength (updateRestLength m e) =
              Some (b * (1 + (case m (eid e) of None \<Rightarrow> 0 | Some v \<Rightarrow> v) / 100)))"
  by (auto simp: updateRestLength_def falsy_def Let_def split: option.splits)

text \<open>
  Claim C1, as the code has it. The claim says that every pass resets \<open>originalLength\<close>
  to the current length. \<^verbatim>\<open>updateRestLengths\<close> guards the assignment with
  \<^verbatim>\<open>if (!edge.originalLength)\<close>: in the second generation on the unit edge the length
  is \<open>0.999745\<close> and the baseline stays 1.
\<close>

theorem baseline_kept_counterexample:
  "len (edgesOf firstGeneration ! 0) = 199949 / 200000
   \<and> originalLength (updateRestLengths (edgesOf firstGeneration)
         (snd (calculateEdgeValues (edgesOf firstGeneration) 5)) ! 0) = Some 1"
  by (simp add: firstGeneration_result edgesOf_def updateRestLengths_def updateRestLength_def
      falsy_def Let_def)

text \<open>
  Claim C1, amended. In every pass on edges with distinct ids, fed with the values that
  \<^verbatim>\<open>calculateEdgeValues\<close> returned for them: an edge whose \<open>originalLength\<close> is
  unset (or 0) gets the current length as its baseline, an edge that has a baseline keeps
  it, and in both cases \<open>targetLength = originalLength * (1 + expandValue / 100)\<close> for
  the baseline the edge has after the pass.
\<close>

theorem updateRestLengths_baseline:
  assumes "distinct (map eid edges)" "i < length edges"
  shows "let analysed = fst (calculateEdgeValues edges changeRate);
             edgeValues = snd (calculateEdgeValues edges changeRate);
             e = analysed ! i;
             e' = updateRestLengths analysed edgeValues ! i
         in (falsy (originalLength e) \<longrightarrow> originalLength e' = Some (len e))
          \<and> (\<not> falsy (originalLength e) \<longrightarrow> originalLength e' = originalLength e)
          \<and> (\<exists>b. originalLength e' = Some b
                 \<and> targetLength e' = Some (b * (1 + expandValue e / 100)))"
proof -
  let ?an = "fst (calculateEdgeValues edges changeRate)"
  let ?evs = "snd (calculateEdgeValues edges changeRate)"
  have e: "?an ! i = (edges ! i)\<lparr>expandValue := edgeValueOf changeRate (edges ! i)\<rparr>"
    using assms(2) by (simp add: calculateEdgeValues_def)
  have v: "valueMapOf ?evs (eid (?an ! i)) = Some (expandValue (?an ! i))"
    using valueMapOf_calculateEdgeValues [OF assms] e by simp
  have u: "updateRestLengths ?an ?evs ! i = updateRestLength (valueMapOf ?evs) (?an ! i)"
    using assms(2) by (simp add: updateRestLengths_def calculateEdgeValues_def)
  show ?thesis
    using updateRestLength_fields [of "?an ! i" "valueMapOf ?evs"] v u
    by (simp add: Let_def)
qed

theorem updateRestLengths_baseline_witness:
  "distinct (map eid mixedEdges) \<and> 0 < length mixedEdges \<and> 1 < length mixedEdges
   \<and> falsy (originalLength (fst (calculateEdgeValues mixedEdges 5) ! 0))
   \<and> originalLength (updateRestLengths (fst (calculateEdgeValues mixedEdges 5))
        (snd (calculateEdgeValues mixedEdges 5)) ! 0) = Some 1
   \<and> targetLength (updateRestLengths (fst (calculateEdgeValues mixedEdges 5))
        (snd (calculateEdgeValues mixedEdges 5)) ! 0) = Some (19 / 20)
   \<and> \<not> falsy (originalLength (fst (calculateEdgeValues mixedEdges 5) ! 1))
   \<and> len (fst (calculateEdgeValues mixedEdges 5) ! 1) = 2
   \<and> originalLength (updateRestLengths (fst (calculateEdgeValues mixedEdges 5))
        (snd (calculateEdgeValues mixedEdges 5)) ! 1) = Some 1
   \<and> targetLength (updateRestLengths (fst (calculateEdgeValues mixedEdges 5))
        (snd (calculateEdgeValues mixedEdges 5)) ! 1) = Some (19 / 20)"
  using updateRestLengths_baseline [of mixedEdges 0 5] updateRestLengths_baseline [of mixedEdges 1 5]
  by (simp add: mixedEdges_def newEdge_def calculateEdgeValues_def edgeValueOf_def falsy_def Let_def
      updateRestLengths_def updateRestLength_def valueMapOf_def)

section \<open>Velocities\<close>

lemma vel_moveVertex:
  "snd (moveVertex cfg entry s) =
     (snd s)(fst entry \<mapsto> integrate cfg (startingVelocity (snd s) (fst entry)) (snd entry))"
  by (simp add: moveVertex_def Let_def)

lemma vel_fold:
  "distinct (map fst vf) \<Longrightarrow>
   snd (fold (moveVertex cfg) vf s) k =
     (case map_of vf k of
        None \<Rightarrow> snd s k
      | Some f \<Rightarrow> Some (integrate cfg (startingVelocity (snd s) k) f))"
proof (induction vf arbitrary: s)
  case Nil
  then show ?case by simp
next
  case (Cons entry vf)
  obtain k0 f0 where entry: "entry = (k0, f0)" by (cases entry)
  have d: "distinct (map fst vf)" and n: "k0 \<notin> fst ` set vf"
    using Cons.prems entry by auto
  have none: "map_of vf k0 = None"
    using n by (simp add: map_of_eq_None_iff)
  show ?case
    using Cons.IH [OF d, of "moveVertex cfg entry s"] none
    by (auto simp: entry vel_moveVertex startingVelocity_def split: option.splits)
qed

subsection \<open>One step, vertex by vertex\<close>

lemma refsOf_shape: "shape vf' = shape vf \<Longrightarrow> refsOf vf' = refsOf vf"
proof -
  assume "shape vf' = shape vf"
  then have "map snd (shape vf') = map snd (shape vf)" by simp
  then show ?thesis by (simp add: shape_def refsOf_def comp_def)
qed

lemma refsOf_initForce:
  "set (refsOf (initForce k r vf)) \<subseteq> insert r (set (refsOf vf))"
  "r \<notin> set (refsOf vf) \<Longrightarrow> distinct (refsOf vf) \<Longrightarrow> distinct (refsOf (initForce k r vf))"
  by (auto simp: initForce_def refsOf_def)

lemma initForces_refs_fold:
  "distinct is \<Longrightarrow> distinct (refsOf vf) \<Longrightarrow> refIndex ` set (refsOf vf) \<inter> set is = {} \<Longrightarrow>
   distinct (refsOf (fold (\<lambda>i vf. initForce (getVertexKey (endv (edges ! i))) (EndOf i)
                    (initForce (getVertexKey (start (edges ! i))) (StartOf i) vf)) is vf))"
proof (induction "is" arbitrary: vf)
  case Nil
  then show ?case by simp
next
  case (Cons i "is")
  let ?vf0 = "initForce (getVertexKey (start (edges ! i))) (StartOf i) vf"
  let ?vf1 = "initForce (getVertexKey (endv (edges ! i))) (EndOf i) ?vf0"
  have fresh: "\<forall>r \<in> set (refsOf vf). refIndex r \<noteq> i"
    using Cons.prems(3) by auto
  then have s: "StartOf i \<notin> set (refsOf vf)" "EndOf i \<notin> set (refsOf vf)"
    by (auto simp: refIndex_def)
  have d0: "distinct (refsOf ?vf0)"
    using refsOf_initForce(2) [OF s(1) Cons.prems(2)] .
  have sub0: "set (refsOf ?vf0) \<subseteq> insert (StartOf i) (set (refsOf vf))"
    by (rule refsOf_initForce(1))
  then have e0: "EndOf i \<notin> set (refsOf ?vf0)"
    using s(2) by auto
  have d1: "distinct (refsOf ?vf1)"
    using refsOf_initForce(2) [OF e0 d0] .
  have sub1: "set (refsOf ?vf1) \<subseteq> insert (EndOf i) (insert (StartOf i) (set (refsOf vf)))"
    using refsOf_initForce(1) [of "getVertexKey (endv (edges ! i))" "EndOf i" ?vf0] sub0 by blast
  have "refIndex ` set (refsOf ?vf1) \<subseteq> insert i (refIndex ` set (refsOf vf))"
    using sub1 by (auto simp: refIndex_def)
  then have disj: "refIndex ` set (refsOf ?vf1) \<inter> set is = {}"
    using Cons.prems(1,3) by auto
  have "distinct is" using Cons.prems(1) by simp
  from Cons.IH [OF this d1 disj] show ?case by simp
qed

lemma initForces_refs: "distinct (refsOf (initForces edges))"
  unfolding initForces_def
  by (rule initForces_refs_fold) (simp_all add: refsOf_def)

lemma deref_assign:
  "refIndex r < length edges \<Longrightarrow>
     deref (assign edges r v) r' = (if r' = r then v else deref edges r')"
  by (cases r; cases r') (auto simp: refIndex_def nth_list_update)

lemma length_assign: "length (assign edges r v) = length edges"
  by (cases r) simp_all

lemma moveVertex_parts:
  "fst (moveVertex cfg entry (edges, vel)) =
     assign edges (vertex_ref (snd entry))
       (advance cfg (integrate cfg (startingVelocity vel (fst entry)) (snd entry))
          (deref edges (vertex_ref (snd entry))))"
  "snd (moveVertex cfg entry (edges, vel)) =
     vel(fst entry \<mapsto> integrate cfg (startingVelocity vel (fst entry)) (snd entry))"
  by (simp_all add: moveVertex_def Let_def advance_def)

lemma pos_fold:
  assumes "distinct (map fst vf)" "distinct (refsOf vf)"
    "\<forall>entry \<in> set vf. refIndex (vertex_ref (snd entry)) < length edges"
  shows "length (fst (fold (moveVertex cfg) vf (edges, vel))) = length edges
       \<and> (\<forall>entry \<in> set vf.
            deref (fst (fold (moveVertex cfg) vf (edges, vel))) (vertex_ref (snd entry)) =
              advance cfg (integrate cfg (startingVelocity vel (fst entry)) (snd entry))
                (deref edges (vertex_ref (snd entry))))
       \<and> (\<forall>r. r \<notin> set (refsOf vf) \<longrightarrow>
            deref (fst (fold (moveVertex cfg) vf (edges, vel))) r = deref edges r)"
  using assms
proof (induction vf arbitrary: edges vel)
  case Nil
  then show ?case by (simp add: refsOf_def)
next
  case (Cons entry vf)
  define r0 where "r0 = vertex_ref (snd entry)"
  define v0 where "v0 = integrate cfg (startingVelocity vel (fst entry)) (snd entry)"
  define edges1 where "edges1 = assign edges r0 (advance cfg v0 (deref edges r0))"
  define vel1 where "vel1 = vel(fst entry \<mapsto> v0)"
  have m: "moveVertex cfg entry (edges, vel) = (edges1, vel1)"
    using moveVertex_parts [of cfg entry edges vel]
    by (simp add: edges1_def vel1_def r0_def v0_def prod_eq_iff)
  have r0: "refIndex r0 < length edges"
    using Cons.prems(3) by (simp add: r0_def)
  have l1: "length edges1 = length edges"
    by (simp add: edges1_def length_assign)
  have d: "distinct (map fst vf)" "distinct (refsOf vf)"
    and fresh: "fst entry \<notin> fst ` set vf" "r0 \<notin> set (refsOf vf)"
    using Cons.prems(1,2) by (auto simp: refsOf_def r0_def)
  have valid: "\<forall>entry \<in> set vf. refIndex (vertex_ref (snd entry)) < length edges1"
    using Cons.prems(3) l1 by simp
  note IH = Cons.IH [OF d valid, of vel1]
  let ?res = "fst (fold (moveVertex cfg) vf (edges1, vel1))"
  have res: "fst (fold (moveVertex cfg) (entry # vf) (edges, vel)) = ?res"
    by (simp add: m)
  have "deref ?res r0 = deref edges1 r0"
    using IH fresh(2) by blast
  also have "\<dots> = advance cfg v0 (deref edges r0)"
    using r0 by (simp add: edges1_def deref_assign)
  finally have first: "deref ?res r0 = advance cfg v0 (deref edges r0)" .
  have rest: "deref ?res (vertex_ref (snd e)) =
              advance cfg (integrate cfg (startingVelocity vel (fst e)) (snd e))
                (deref edges (vertex_ref (snd e)))" if e: "e \<in> set vf" for e
  proof -
    have k: "fst e \<noteq> fst entry" using e fresh(1) by (metis imageI)
    have r: "vertex_ref (snd e) \<noteq> r0" using e fresh(2) by (auto simp: refsOf_def)
    have "startingVelocity vel1 (fst e) = startingVelocity vel (fst e)"
      using k by (simp add: startingVelocity_def vel1_def)
    moreover have "deref edges1 (vertex_ref (snd e)) = deref edges (vertex_ref (snd e))"
      using r r0 by (simp add: edges1_def deref_assign)
    ultimately show ?thesis using IH e by simp
  qed
  have other: "deref ?res r = deref edges r" if "r \<notin> set (refsOf (entry # vf))" for r
  proof -
    have "r \<noteq> r0" "r \<notin> set (refsOf vf)"
      using that by (auto simp: refsOf_def r0_def)
    then show ?thesis
      using IH r0 by (simp add: edges1_def deref_assign)
  qed
  show ?case
    unfolding res using IH l1 first rest other
    by (auto simp: r0_def v0_def)
qed

lemma deref_refreshLength:
  "refIndex r < length edges \<Longrightarrow> deref (map refreshLength edges) r = deref edges r"
  by (cases r) (simp_all add: refIndex_def refreshLength_def)

lemma pass_step:
  "\<exists>vf ev' edges'.
      accumulateForces (config ev) edges (initForces edges) = Inr vf
    \<and> applySpringForcesToEdges ev edges = Inr (ev', edges')
    \<and> config ev' = config ev \<and> length edges' = length edges
    \<and> distinct (map fst vf) \<and> distinct (refsOf vf)
    \<and> (\<forall>i < length edges.
          getVertexKey (start (edges ! i)) \<in> fst ` set vf
        \<and> getVertexKey (endv (edges ! i)) \<in> fst ` set vf)
    \<and> (\<forall>entry \<in> set vf.
          refIndex (vertex_ref (snd entry)) < length edges
        \<and> fst entry = getVertexKey (deref edges (vertex_ref (snd entry)))
        \<and> vertexVelocities ev' (fst entry) =
            Some (integrate (config ev) (startingVelocity (vertexVelocities ev) (fst entry)) (snd entry))
        \<and> deref edges' (vertex_ref (snd entry)) =
            advance (config ev)
              (integrate (config ev) (startingVelocity (vertexVelocities ev) (fst entry)) (snd entry))
              (deref edges (vertex_ref (snd entry))))
    \<and> (\<forall>k. k \<notin> fst ` set vf \<longrightarrow> vertexVelocities ev' k = vertexVelocities ev k)
    \<and> (\<forall>r. refIndex r < length edges \<and> r \<notin> set (refsOf vf) \<longrightarrow> deref edges' r = deref edges r)"
proof -
  obtain vf where vf: "accumulateForces (config ev) edges (initForces edges) = Inr vf"
      and sh: "shape vf = shape (initForces edges)"
    using accumulateForces_init_total by blast
  have k: "keyed edges vf"
    using keyed_shape [OF sh] initForces_facts by blast
  then have d: "distinct (map fst vf)"
    and valid: "\<forall>entry \<in> set vf. refIndex (vertex_ref (snd entry)) < length edges"
    and key: "\<forall>entry \<in> set vf. fst entry = getVertexKey (deref edges (vertex_ref (snd entry)))"
    by (simp_all add: keyed_def)
  have dr: "distinct (refsOf vf)"
    using refsOf_shape [OF sh] initForces_refs by simp
  define moved where "moved = fold (moveVertex (config ev)) vf (edges, vertexVelocities ev)"
  define ev' where "ev' = ev\<lparr>vertexVelocities := snd moved\<rparr>"
  define edges' where "edges' = map refreshLength (fst moved)"
  have r: "applySpringForcesToEdges ev edges = Inr (ev', edges')"
    by (simp add: applySpringForcesToEdges_def vf Let_def moved_def ev'_def edges'_def
        updateVertexPositions_def)
  have pos: "length (fst moved) = length edges"
    "\<forall>entry \<in> set vf.
            deref (fst moved) (vertex_ref (snd entry)) =
              advance (config ev)
                (integrate (config ev) (startingVelocity (vertexVelocities ev) (fst entry)) (snd entry))
                (deref edges (vertex_ref (snd entry)))"
    "\<forall>r. r \<notin> set (refsOf vf) \<longrightarrow> deref (fst moved) r = deref edges r"
    using pos_fold [OF d dr valid, of "config ev" "vertexVelocities ev"]
    unfolding moved_def by blast+
  have v: "vertexVelocities ev' k =
     (case map_of vf k of
        None \<Rightarrow> vertexVelocities ev k
      | Some f \<Rightarrow> Some (integrate (config ev) (startingVelocity (vertexVelocities ev) k) f))" for k
    using vel_fold [OF d, of "config ev" "(edges, vertexVelocities ev)" k]
    by (simp add: ev'_def moved_def split: option.splits)
  have cover: "\<forall>i < length edges.
          getVertexKey (start (edges ! i)) \<in> fst ` set vf
        \<and> getVertexKey (endv (edges ! i)) \<in> fst ` set vf"
    using initForces_keys shape_keys [OF sh] by simp
  have stored: "vertexVelocities ev' (fst entry) =
            Some (integrate (config ev) (startingVelocity (vertexVelocities ev) (fst entry)) (snd entry))"
    if "entry \<in> set vf" for entry
  proof -
    have "map_of vf (fst entry) = Some (snd entry)"
      using that d by simp
    then show ?thesis using v by simp
  qed
  have other: "vertexVelocities ev' k = vertexVelocities ev k" if "k \<notin> fst ` set vf" for k
  proof -
    have "map_of vf k = None" using that by (simp add: map_of_eq_None_iff)
    then show ?thesis using v by simp
  qed
  have p1: "deref edges' (vertex_ref (snd entry)) =
            advance (config ev)
              (integrate (config ev) (startingVelocity (vertexVelocities ev) (fst entry)) (snd entry))
              (deref edges (vertex_ref (snd entry)))" if "entry \<in> set vf" for entry
    using that valid pos(1,2) by (simp add: edges'_def deref_refreshLength)
  have p2: "deref edges' r = deref edges r" if "refIndex r < length edges" "r \<notin> set (refsOf vf)" for r
    using that pos(1,3) by (simp add: edges'_def deref_refreshLength)
  have c: "config ev' = config ev" by (simp add: ev'_def)
  have l: "length edges' = length edges" by (simp add: edges'_def pos(1))
  show ?thesis
    using vf r c l d dr cover valid key stored p1 other p2 by blast
qed

subsection \<open>Two steps on a slow edge\<close>

lemma slow_a1:
  "accumulateForces (config newEvolver) slowEdges (initForces slowEdges) =
     Inr [((Fixed False 0, Fixed False 0), \<lparr>fx = 3 / 1000000, fy = 0, vertex_ref = StartOf 0\<rparr>),
          ((Fixed False 1000000, Fixed False 0),
           \<lparr>fx = - (3 / 1000000), fy = 0, vertex_ref = EndOf 0\<rparr>)]"
  by (simp add: slowEdges_def pass_defs)

lemma slow_r1:
  "applySpringForcesToEdges newEvolver slowEdges =
     Inr (\<lparr>config = defaultConfig, vertexVelocities = slowVelocities\<rparr>, slowEdges1)"
  by (simp add: slowEdges_def slowEdges1_def slowVelocities_def pass_defs)

lemma slow_a2:
  "accumulateForces (config newEvolver) slowEdges1 (initForces slowEdges1) =
     Inr [((Fixed False 0, Fixed False 0),
           \<lparr>fx = 29847 / 10000000000, fy = 0, vertex_ref = StartOf 0\<rparr>),
          ((Fixed False 1000000, Fixed False 0),
           \<lparr>fx = - (29847 / 10000000000), fy = 0, vertex_ref = EndOf 0\<rparr>)]"
  by (simp add: slowEdges1_def pass_defs)

lemma slow_r2:
  "velocitiesOf (applySpringForcesToEdges
      \<lparr>config = defaultConfig, vertexVelocities = slowVelocities\<rparr> slowEdges1) = slowVelocities2"
  by (simp add: slowEdges1_def slowVelocities_def slowVelocities2_def velocitiesOf_def pass_defs)

subsection \<open>The velocity a step starts from\<close>

text \<open>
  Claim C3, as the code has it. The claim says that the velocity computed for a vertex in
  one step is its starting velocity in the next, also when the vertex moved. The store
  is keyed by the printed position: the first generation stores \<open>(0.001275, 0)\<close> for
  the start vertex under the key of \<open>(0, 0)\<close>, the vertex moves to \<open>(0.0001275, 0)\<close>,
  and the next step finds nothing under the new key and starts from zero.
\<close>

theorem velocity_lost_counterexample:
  "velocitiesOf firstGeneration (getVertexKey (start (unitEdges ! 0))) = Some (51 / 40000, 0)
   \<and> start (edgesOf firstGeneration ! 0) \<noteq> start (unitEdges ! 0)
   \<and> startingVelocity (velocitiesOf firstGeneration)
        (getVertexKey (start (edgesOf firstGeneration ! 0))) = (0, 0)"
  by (simp add: firstGeneration_result edgesOf_def velocitiesOf_def unitEdges_def newEdge_def
      getVertexKey_def toFixed6_def startingVelocity_def)

text \<open>
  Claim C3, amended. The velocity store is keyed by the position of a vertex printed
  with six decimals, read at the start of the step. Every step has accumulators with
  distinct keys and distinct vertices, one under the key of every endpoint, each under
  the key of its own vertex. The vertex of an accumulator, and no other vertex, is
  integrated: it starts from the velocity the store holds under the key, zero if it
  holds none, the integrated velocity is stored under the key, and the vertex advances
  by it for one time step, wrapped; all other entries of the store and all other
  vertices stay as they are. So in the next step the vertex of an accumulator starts
  from the velocity that the previous step computed under the same key, for whichever
  vertex held the accumulator of that key then, and from what the store held before,
  zero if nothing, when the previous step had no accumulator under the key.
\<close>

theorem velocity_resolved_by_position_key:
  "\<exists>vf ev1 edges1 vf2 ev2 edges2.
      accumulateForces (config ev) edges (initForces edges) = Inr vf
    \<and> applySpringForcesToEdges ev edges = Inr (ev1, edges1)
    \<and> accumulateForces (config ev) edges1 (initForces edges1) = Inr vf2
    \<and> applySpringForcesToEdges ev1 edges1 = Inr (ev2, edges2)
    \<and> length edges1 = length edges \<and> length edges2 = length edges
    \<and> distinct (map fst vf) \<and> distinct (refsOf vf)
    \<and> distinct (map fst vf2) \<and> distinct (refsOf vf2)
    \<and> (\<forall>i < length edges.
          getVertexKey (start (edges ! i)) \<in> fst ` set vf
        \<and> getVertexKey (endv (edges ! i)) \<in> fst ` set vf
        \<and> getVertexKey (start (edges1 ! i)) \<in> fst ` set vf2
        \<and> getVertexKey (endv (edges1 ! i)) \<in> fst ` set vf2)
    \<and> (\<forall>entry \<in> set vf.
          fst entry = getVertexKey (deref edges (vertex_ref (snd entry)))
        \<and> vertexVelocities ev1 (fst entry) =
            Some (integrate (config ev) (startingVelocity (vertexVelocities ev) (fst entry)) (snd entry))
        \<and> deref edges1 (vertex_ref (snd entry)) =
            advance (config ev)
              (integrate (config ev) (startingVelocity (vertexVelocities ev) (fst entry)) (snd entry))
              (deref edges (vertex_ref (snd entry))))
    \<and> (\<forall>k. k \<notin> fst ` set vf \<longrightarrow> vertexVelocities ev1 k = vertexVelocities ev k)
    \<and> (\<forall>r. refIndex r < length edges \<and> r \<notin> set (refsOf vf) \<longrightarrow> deref edges1 r = deref edges r)
    \<and> (\<forall>entry2 \<in> set vf2.
          fst entry2 = getVertexKey (deref edges1 (vertex_ref (snd entry2)))
        \<and> vertexVelocities ev2 (fst entry2) =
            Some (integrate (config ev) (startingVelocity (vertexVelocities ev1) (fst entry2)) (snd entry2))
        \<and> deref edges2 (vertex_ref (snd entry2)) =
            advance (config ev)
              (integrate (config ev) (startingVelocity (vertexVelocities ev1) (fst entry2)) (snd entry2))
              (deref edges1 (vertex_ref (snd entry2)))
        \<and> (\<forall>entry \<in> set vf. fst entry = fst entry2 \<longrightarrow>
              startingVelocity (vertexVelocities ev1) (fst entry2) =
                integrate (config ev) (startingVelocity (vertexVelocities ev) (fst entry)) (snd entry))
        \<and> (fst entry2 \<notin> fst ` set vf \<longrightarrow>
              startingVelocity (vertexVelocities ev1) (fst entry2) =
                startingVelocity (vertexVelocities ev) (fst entry2)))
    \<and> (\<forall>r. refIndex r < length edges \<and> r \<notin> set (refsOf vf2) \<longrightarrow> deref edges2 r = deref edges1 r)"
proof -
  obtain vf ev1 edges1 where 1:
    "accumulateForces (config ev) edges (initForces edges) = Inr vf"
    "applySpringForcesToEdges ev edges = Inr (ev1, edges1)"
    "config ev1 = config ev" "length edges1 = length edges"
    "distinct (map fst vf)" "distinct (refsOf vf)"
    "\<forall>i < length edges.
          getVertexKey (start (edges ! i)) \<in> fst ` set vf
        \<and> getVertexKey (endv (edges ! i)) \<in> fst ` set vf"
    "\<forall>entry \<in> set vf.
          refIndex (vertex_ref (snd entry)) < length edges
        \<and> fst entry = getVertexKey (deref edges (vertex_ref (snd entry)))
        \<and> vertexVelocities ev1 (fst entry) =
            Some (integrate (config ev) (startingVelocity (vertexVelocities ev) (fst entry)) (snd entry))
        \<and> deref edges1 (vertex_ref (snd entry)) =
            advance (config ev)
              (integrate (config ev) (startingVelocity (vertexVelocities ev) (fst entry)) (snd entry))
              (deref edges (vertex_ref (snd entry)))"
    "\<forall>k. k \<notin> fst ` set vf \<longrightarrow> vertexVelocities ev1 k = vertexVelocities ev k"
    "\<forall>r. refIndex r < length edges \<and> r \<notin> set (refsOf vf) \<longrightarrow> deref edges1 r = deref edges r"
    using pass_step [of ev edges] by blast
  obtain vf2 ev2 edges2 where 2:
    "accumulateForces (config ev1) edges1 (initForces edges1) = Inr vf2"
    "applySpringForcesToEdges ev1 edges1 = Inr (ev2, edges2)"
    "length edges2 = length edges1"
    "distinct (map fst vf2)" "distinct (refsOf vf2)"
    "\<forall>i < length edges1.
          getVertexKey (start (edges1 ! i)) \<in> fst ` set vf2
        \<and> getVertexKey (endv (edges1 ! i)) \<in> fst ` set vf2"
    "\<forall>entry \<in> set vf2.
          refIndex (vertex_ref (snd entry)) < length edges1
        \<and> fst entry = getVertexKey (deref edges1 (vertex_ref (snd entry)))
        \<and> vertexVelocities ev2 (fst entry) =
            Some (integrate (config ev1) (startingVelocity (vertexVelocities ev1) (fst entry)) (snd entry))
        \<and> deref edges2 (vertex_ref (snd entry)) =
            advance (config ev1)
              (integrate (config ev1) (startingVelocity (vertexVelocities ev1) (fst entry)) (snd entry))
              (deref edges1 (vertex_ref (snd entry)))"
    "\<forall>r. refIndex r < length edges1 \<and> r \<notin> set (refsOf vf2) \<longrightarrow> deref edges2 r = deref edges1 r"
    using pass_step [of ev1 edges1] by blast
  have same: "startingVelocity (vertexVelocities ev1) (fst entry2) =
                integrate (config ev) (startingVelocity (vertexVelocities ev) (fst entry)) (snd entry)"
    if "entry \<in> set vf" "fst entry = fst entry2" for entry entry2 :: "vertexKey \<times> force"
  proof -
    have "vertexVelocities ev1 (fst entry) =
            Some (integrate (config ev) (startingVelocity (vertexVelocities ev) (fst entry)) (snd entry))"
      using 1(8) that(1) by blast
    then show ?thesis
      unfolding that(2) by (simp add: startingVelocity_def)
  qed
  have fresh: "startingVelocity (vertexVelocities ev1) k = startingVelocity (vertexVelocities ev) k"
    if "k \<notin> fst ` set vf" for k
  proof -
    have "vertexVelocities ev1 k = vertexVelocities ev k"
      using 1(9) that by blast
    then show ?thesis by (simp add: startingVelocity_def)
  qed
  have a2: "accumulateForces (config ev) edges1 (initForces edges1) = Inr vf2"
    using 2(1) unfolding 1(3) .
  have l2: "length edges2 = length edges"
    using 2(3) 1(4) by simp
  have cover: "\<forall>i < length edges.
          getVertexKey (start (edges ! i)) \<in> fst ` set vf
        \<and> getVertexKey (endv (edges ! i)) \<in> fst ` set vf
        \<and> getVertexKey (start (edges1 ! i)) \<in> fst ` set vf2
        \<and> getVertexKey (endv (edges1 ! i)) \<in> fst ` set vf2"
    using 1(7) 2(6) unfolding 1(4) by blast
  have e1: "\<forall>entry \<in> set vf.
          fst entry = getVertexKey (deref edges (vertex_ref (snd entry)))
        \<and> vertexVelocities ev1 (fst entry) =
            Some (integrate (config ev) (startingVelocity (vertexVelocities ev) (fst entry)) (snd entry))
        \<and> deref edges1 (vertex_ref (snd entry)) =
            advance (config ev)
              (integrate (config ev) (startingVelocity (vertexVelocities ev) (fst entry)) (snd entry))
              (deref edges (vertex_ref (snd entry)))"
    using 1(8) by blast
  have e2: "\<forall>entry2 \<in> set vf2.
          fst entry2 = getVertexKey (deref edges1 (vertex_ref (snd entry2)))
        \<and> vertexVelocities ev2 (fst entry2) =
            Some (integrate (config ev) (startingVelocity (vertexVelocities ev1) (fst entry2)) (snd entry2))
        \<and> deref edges2 (vertex_ref (snd entry2)) =
            advance (config ev)
              (integrate (config ev) (startingVelocity (vertexVelocities ev1) (fst entry2)) (snd entry2))
              (deref edges1 (vertex_ref (snd entry2)))
        \<and> (\<forall>entry \<in> set vf. fst entry = fst entry2 \<longrightarrow>
              startingVelocity (vertexVelocities ev1) (fst entry2) =
                integrate (config ev) (startingVelocity (vertexVelocities ev) (fst entry)) (snd entry))
        \<and> (fst entry2 \<notin> fst ` set vf \<longrightarrow>
              startingVelocity (vertexVelocities ev1) (fst entry2) =
                startingVelocity (vertexVelocities ev) (fst entry2))"
  proof (intro ballI conjI impI)
    fix entry2 assume m: "entry2 \<in> set vf2"
    note f = 2(7) [unfolded 1(3), rule_format, OF m]
    show "fst entry2 = getVertexKey (deref edges1 (vertex_ref (snd entry2)))"
      using f by blast
    show "vertexVelocities ev2 (fst entry2) =
            Some (integrate (config ev) (startingVelocity (vertexVelocities ev1) (fst entry2)) (snd entry2))"
      using f by blast
    show "deref edges2 (vertex_ref (snd entry2)) =
            advance (config ev)
              (integrate (config ev) (startingVelocity (vertexVelocities ev1) (fst entry2)) (snd entry2))
              (deref edges1 (vertex_ref (snd entry2)))"
      using f by blast
    show "startingVelocity (vertexVelocities ev1) (fst entry2) =
                integrate (config ev) (startingVelocity (vertexVelocities ev) (fst entry)) (snd entry)"
      if "entry \<in> set vf" "fst entry = fst entry2" for entry
      using same [OF that] .
    show "startingVelocity (vertexVelocities ev1) (fst entry2) =
                startingVelocity (vertexVelocities ev) (fst entry2)"
      if "fst entry2 \<notin> fst ` set vf"
      using fresh [OF that] .
  qed
  have u2: "\<forall>r. refIndex r < length edges \<and> r \<notin> set (refsOf vf2) \<longrightarrow> deref edges2 r = deref edges1 r"
    using 2(8) unfolding 1(4) .
  show ?thesis
    by (intro exI conjI)
       (rule 1(1) 1(2) a2 2(2) 1(4) l2 1(5) 1(6) 2(4) 2(5) cover e1 1(9) 1(10) e2 u2)+
qed

theorem velocity_resolved_by_position_key_witness:
  "applySpringForcesToEdges newEvolver slowEdges =
     Inr (\<lparr>config = defaultConfig, vertexVelocities = slowVelocities\<rparr>, slowEdges1)
   \<and> getVertexKey (start (slowEdges1 ! 0)) = getVertexKey (start (slowEdges ! 0))
   \<and> slowVelocities (getVertexKey (start (slowEdges ! 0))) = Some (51 / 200000000, 0)
   \<and> velocitiesOf (applySpringForcesToEdges
         \<lparr>config = defaultConfig, vertexVelocities = slowVelocities\<rparr> slowEdges1)
        (getVertexKey (start (slowEdges1 ! 0))) =
       Some (integrate defaultConfig (51 / 200000000, 0)
               \<lparr>fx = 29847 / 10000000000, fy = 0, vertex_ref = StartOf 0\<rparr>)
   \<and> integrate defaultConfig (51 / 200000000, 0)
         \<lparr>fx = 29847 / 10000000000, fy = 0, vertex_ref = StartOf 0\<rparr> = (940899 / 2000000000000, 0)
   \<and> integrate defaultConfig (0, 0)
         \<lparr>fx = 29847 / 10000000000, fy = 0, vertex_ref = StartOf 0\<rparr> = (2536995 / 10000000000000, 0)"
proof -
  obtain vf ev1 edges1 vf2 ev2 edges2 where
    f: "accumulateForces (config newEvolver) slowEdges (initForces slowEdges) = Inr vf"
       "applySpringForcesToEdges newEvolver slowEdges = Inr (ev1, edges1)"
       "accumulateForces (config newEvolver) edges1 (initForces edges1) = Inr vf2"
       "applySpringForcesToEdges ev1 edges1 = Inr (ev2, edges2)"
       "\<forall>entry2 \<in> set vf2.
          fst entry2 = getVertexKey (deref edges1 (vertex_ref (snd entry2)))
        \<and> vertexVelocities ev2 (fst entry2) =
            Some (integrate (config newEvolver)
                    (startingVelocity (vertexVelocities ev1) (fst entry2)) (snd entry2))
        \<and> deref edges2 (vertex_ref (snd entry2)) =
            advance (config newEvolver)
              (integrate (config newEvolver)
                 (startingVelocity (vertexVelocities ev1) (fst entry2)) (snd entry2))
              (deref edges1 (vertex_ref (snd entry2)))
        \<and> (\<forall>entry \<in> set vf. fst entry = fst entry2 \<longrightarrow>
              startingVelocity (vertexVelocities ev1) (fst entry2) =
                integrate (config newEvolver)
                  (startingVelocity (vertexVelocities newEvolver) (fst entry)) (snd entry))
        \<and> (fst entry2 \<notin> fst ` set vf \<longrightarrow>
              startingVelocity (vertexVelocities ev1) (fst entry2) =
                startingVelocity (vertexVelocities newEvolver) (fst entry2))"
    using velocity_resolved_by_position_key [of newEvolver slowEdges] by blast
  have vf: "vf = [((Fixed False 0, Fixed False 0), \<lparr>fx = 3 / 1000000, fy = 0, vertex_ref = StartOf 0\<rparr>),
          ((Fixed False 1000000, Fixed False 0),
           \<lparr>fx = - (3 / 1000000), fy = 0, vertex_ref = EndOf 0\<rparr>)]"
    using f(1) unfolding slow_a1 by simp
  have e1: "ev1 = \<lparr>config = defaultConfig, vertexVelocities = slowVelocities\<rparr>" "edges1 = slowEdges1"
    using f(2) unfolding slow_r1 by simp_all
  have vf2: "vf2 = [((Fixed False 0, Fixed False 0),
           \<lparr>fx = 29847 / 10000000000, fy = 0, vertex_ref = StartOf 0\<rparr>),
          ((Fixed False 1000000, Fixed False 0),
           \<lparr>fx = - (29847 / 10000000000), fy = 0, vertex_ref = EndOf 0\<rparr>)]"
    using f(3) unfolding e1 slow_a2 by simp
  let ?entry2 = "((Fixed False 0, Fixed False 0),
           \<lparr>fx = 29847 / 10000000000, fy = 0, vertex_ref = StartOf 0\<rparr>)"
  let ?entry = "((Fixed False 0, Fixed False 0), \<lparr>fx = 3 / 1000000, fy = 0, vertex_ref = StartOf 0\<rparr>)"
  have m2: "?entry2 \<in> set vf2" by (simp add: vf2)
  have m1: "?entry \<in> set vf" by (simp add: vf)
  note g = f(5) [THEN bspec, OF m2, unfolded fst_conv snd_conv]
  have used: "vertexVelocities ev2 (Fixed False 0, Fixed False 0) =
      Some (integrate (config newEvolver)
              (startingVelocity (vertexVelocities ev1) (Fixed False 0, Fixed False 0)) (snd ?entry2))"
    unfolding snd_conv using g by blast
  have from_first: "startingVelocity (vertexVelocities ev1) (Fixed False 0, Fixed False 0) =
      integrate (config newEvolver)
        (startingVelocity (vertexVelocities newEvolver) (Fixed False 0, Fixed False 0)) (snd ?entry)"
  proof -
    have "\<forall>entry \<in> set vf. fst entry = (Fixed False 0, Fixed False 0) \<longrightarrow>
              startingVelocity (vertexVelocities ev1) (Fixed False 0, Fixed False 0) =
                integrate (config newEvolver)
                  (startingVelocity (vertexVelocities newEvolver) (fst entry)) (snd entry)"
      using g by blast
    from this [THEN bspec, OF m1] show ?thesis by simp
  qed
  have v1: "integrate (config newEvolver)
        (startingVelocity (vertexVelocities newEvolver) (Fixed False 0, Fixed False 0)) (snd ?entry)
      = (51 / 200000000, 0)"
    by (simp add: newEvolver_def defaultConfig_def integrate_def startingVelocity_def)
  have key: "getVertexKey (start (slowEdges1 ! 0)) = (Fixed False 0, Fixed False 0)"
    "getVertexKey (start (slowEdges ! 0)) = (Fixed False 0, Fixed False 0)"
    by (simp_all add: slowEdges1_def slowEdges_def newEdge_def getVertexKey_def toFixed6_def)
  have second: "velocitiesOf (applySpringForcesToEdges
         \<lparr>config = defaultConfig, vertexVelocities = slowVelocities\<rparr> slowEdges1)
        (Fixed False 0, Fixed False 0) = vertexVelocities ev2 (Fixed False 0, Fixed False 0)"
    using f(4) unfolding e1 by (simp add: velocitiesOf_def)
  have cfg: "config newEvolver = defaultConfig"
    by (simp add: newEvolver_def)
  have sv: "startingVelocity (vertexVelocities ev1) (Fixed False 0, Fixed False 0) = (51 / 200000000, 0)"
    unfolding from_first v1 ..
  show ?thesis
    unfolding key second used sv cfg
    using slow_r1 by (simp add: slowVelocities_def defaultConfig_def integrate_def)
qed

section \<open>Periodic wrap\<close>

lemma border_a:
  "accumulateForces (config newEvolver) borderEdges (initForces borderEdges) =
     Inr [((Fixed False 7500000, Fixed False 0),
           \<lparr>fx = - (597 / 20), fy = 0, vertex_ref = StartOf 0\<rparr>),
          ((Fixed False 8000000, Fixed False 0),
           \<lparr>fx = 597 / 20, fy = 0, vertex_ref = EndOf 0\<rparr>)]"
  by (simp add: borderEdges_def pass_defs)

text \<open>
  Claim C8, as the code has it. The claim says that after integration every coordinate
  lies in the half-open interval from min to max. \<^verbatim>\<open>wrapCoordinate\<close> tests
  \<^verbatim>\<open>coord > max\<close>, so a vertex on the right border stays there: an edge from
  \<open>(8, 0)\<close> to \<open>(8, 1)\<close> at rest keeps \<open>x = 8\<close>, which is not below 8.
\<close>

theorem wrapCoordinate_half_open_counterexample:
  "\<not> (- 8 \<le> vx (start (edgesOf (applyEdgeValues newEvolver [newEdge 0 (8, 0) (8, 1) 0] []) ! 0))
       \<and> vx (start (edgesOf (applyEdgeValues newEvolver [newEdge 0 (8, 0) (8, 1) 0] []) ! 0)) < 8)"
  by (simp add: edgesOf_def applyEdgeValues_def newEdge_def updateRestLengths_def updateRestLength_def
     valueMapOf_def falsy_def applySpringForcesToEdges_def newEvolver_def defaultConfig_def initForces_def initForce_def
     getVertexKey_def springStep_def currentLengthOf_def checkedDivide_def addForce_def
     updateVertexPositions_def moveVertex_def integrate_def startingVelocity_def wrapCoordinate_def refreshLength_def Let_def
     toFixed6_def)

text \<open>
  Claim C8, amended. The wrap adds the domain extent \<open>max - min\<close> once to a coordinate
  below min, subtracts it once from a coordinate above max that is not below min, and
  leaves a coordinate in the closed interval from min to max as it is, so that wrapping
  it again changes nothing. For \<open>min \<le> max\<close>, a coordinate \<open>max + d\<close> with \<open>d > 0\<close>
  wraps to \<open>min + d\<close>, and a coordinate no further than one extent outside the interval
  lands in the closed interval. In every step each vertex of an accumulator gets the
  wrapped sums of position and integrated velocity times time step as its new
  coordinates, with the bounds \<open>- 8, 8\<close> and \<open>- 6, 6\<close>, and every other vertex keeps
  its coordinates.
\<close>

theorem wrapCoordinate_one_extent:
  "(c < lo \<longrightarrow> wrapCoordinate c lo hi = c + (hi - lo))
   \<and> (lo \<le> c \<and> hi < c \<longrightarrow> wrapCoordinate c lo hi = c - (hi - lo))
   \<and> (lo \<le> c \<and> c \<le> hi \<longrightarrow>
        wrapCoordinate c lo hi = c \<and> wrapCoordinate (wrapCoordinate c lo hi) lo hi = c)
   \<and> (lo \<le> hi \<and> 0 < d \<longrightarrow> wrapCoordinate (hi + d) lo hi = lo + d)
   \<and> (lo \<le> hi \<and> lo - (hi - lo) \<le> c \<and> c \<le> hi + (hi - lo) \<longrightarrow>
        lo \<le> wrapCoordinate c lo hi \<and> wrapCoordinate c lo hi \<le> hi)
   \<and> (\<exists>vf ev' edges'.
        accumulateForces (config ev) edges (initForces edges) = Inr vf
      \<and> applySpringForcesToEdges ev edges = Inr (ev', edges')
      \<and> length edges' = length edges
      \<and> (\<forall>i < length edges.
            getVertexKey (start (edges ! i)) \<in> fst ` set vf
          \<and> getVertexKey (endv (edges ! i)) \<in> fst ` set vf)
      \<and> (\<forall>entry \<in> set vf.
            refIndex (vertex_ref (snd entry)) < length edges
          \<and> fst entry = getVertexKey (deref edges (vertex_ref (snd entry)))
          \<and> vx (deref edges' (vertex_ref (snd entry))) =
              wrapCoordinate
                (vx (deref edges (vertex_ref (snd entry)))
                 + fst (integrate (config ev) (startingVelocity (vertexVelocities ev) (fst entry))
                          (snd entry)) * timeStep (config ev)) (- 8) 8
          \<and> vy (deref edges' (vertex_ref (snd entry))) =
              wrapCoordinate
                (vy (deref edges (vertex_ref (snd entry)))
                 + snd (integrate (config ev) (startingVelocity (vertexVelocities ev) (fst entry))
                          (snd entry)) * timeStep (config ev)) (- 6) 6)
      \<and> (\<forall>r. refIndex r < length edges \<and> r \<notin> set (refsOf vf) \<longrightarrow>
            deref edges' r = deref edges r))"
proof -
  have a: "c < lo \<longrightarrow> wrapCoordinate c lo hi = c + (hi - lo)"
    by (simp add: wrapCoordinate_def)
  have b: "lo \<le> c \<and> hi < c \<longrightarrow> wrapCoordinate c lo hi = c - (hi - lo)"
    by (simp add: wrapCoordinate_def)
  have c: "lo \<le> c \<and> c \<le> hi \<longrightarrow>
        wrapCoordinate c lo hi = c \<and> wrapCoordinate (wrapCoordinate c lo hi) lo hi = c"
    by (simp add: wrapCoordinate_def)
  have d: "lo \<le> hi \<and> 0 < d \<longrightarrow> wrapCoordinate (hi + d) lo hi = lo + d"
    by (simp add: wrapCoordinate_def)
  have e: "lo \<le> hi \<and> lo - (hi - lo) \<le> c \<and> c \<le> hi + (hi - lo) \<longrightarrow>
        lo \<le> wrapCoordinate c lo hi \<and> wrapCoordinate c lo hi \<le> hi"
    by (auto simp: wrapCoordinate_def Let_def)
  obtain vf ev' edges' where 1:
    "accumulateForces (config ev) edges (initForces edges) = Inr vf"
    "applySpringForcesToEdges ev edges = Inr (ev', edges')"
    "length edges' = length edges"
    "\<forall>i < length edges.
          getVertexKey (start (edges ! i)) \<in> fst ` set vf
        \<and> getVertexKey (endv (edges ! i)) \<in> fst ` set vf"
    "\<forall>entry \<in> set vf.
          refIndex (vertex_ref (snd entry)) < length edges
        \<and> fst entry = getVertexKey (deref edges (vertex_ref (snd entry)))
        \<and> vertexVelocities ev' (fst entry) =
            Some (integrate (config ev) (startingVelocity (vertexVelocities ev) (fst entry)) (snd entry))
        \<and> deref edges' (vertex_ref (snd entry)) =
            advance (config ev)
              (integrate (config ev) (startingVelocity (vertexVelocities ev) (fst entry)) (snd entry))
              (deref edges (vertex_ref (snd entry)))"
    "\<forall>r. refIndex r < length edges \<and> r \<notin> set (refsOf vf) \<longrightarrow> deref edges' r = deref edges r"
    using pass_step [of ev edges] by blast
  have p: "\<forall>entry \<in> set vf.
            refIndex (vertex_ref (snd entry)) < length edges
          \<and> fst entry = getVertexKey (deref edges (vertex_ref (snd entry)))
          \<and> vx (deref edges' (vertex_ref (snd entry))) =
              wrapCoordinate
                (vx (deref edges (vertex_ref (snd entry)))
                 + fst (integrate (config ev) (startingVelocity (vertexVelocities ev) (fst entry))
                          (snd entry)) * timeStep (config ev)) (- 8) 8
          \<and> vy (deref edges' (vertex_ref (snd entry))) =
              wrapCoordinate
                (vy (deref edges (vertex_ref (snd entry)))
                 + snd (integrate (config ev) (startingVelocity (vertexVelocities ev) (fst entry))
                          (snd entry)) * timeStep (config ev)) (- 6) 6"
  proof
    fix entry assume "entry \<in> set vf"
    note f = 1(5) [THEN bspec, OF this]
    have "deref edges' (vertex_ref (snd entry)) =
            advance (config ev)
              (integrate (config ev) (startingVelocity (vertexVelocities ev) (fst entry)) (snd entry))
              (deref edges (vertex_ref (snd entry)))"
      using f by blast
    then show "refIndex (vertex_ref (snd entry)) < length edges
          \<and> fst entry = getVertexKey (deref edges (vertex_ref (snd entry)))
          \<and> vx (deref edges' (vertex_ref (snd entry))) =
              wrapCoordinate
                (vx (deref edges (vertex_ref (snd entry)))
                 + fst (integrate (config ev) (startingVelocity (vertexVelocities ev) (fst entry))
                          (snd entry)) * timeStep (config ev)) (- 8) 8
          \<and> vy (deref edges' (vertex_ref (snd entry))) =
              wrapCoordinate
                (vy (deref edges (vertex_ref (snd entry)))
                 + snd (integrate (config ev) (startingVelocity (vertexVelocities ev) (fst entry))
                          (snd entry)) * timeStep (config ev)) (- 6) 6"
      using f by (simp add: advance_def)
  qed
  have pass: "\<exists>vf ev' edges'.
        accumulateForces (config ev) edges (initForces edges) = Inr vf
      \<and> applySpringForcesToEdges ev edges = Inr (ev', edges')
      \<and> length edges' = length edges
      \<and> (\<forall>i < length edges.
            getVertexKey (start (edges ! i)) \<in> fst ` set vf
          \<and> getVertexKey (endv (edges ! i)) \<in> fst ` set vf)
      \<and> (\<forall>entry \<in> set vf.
            refIndex (vertex_ref (snd entry)) < length edges
          \<and> fst entry = getVertexKey (deref edges (vertex_ref (snd entry)))
          \<and> vx (deref edges' (vertex_ref (snd entry))) =
              wrapCoordinate
                (vx (deref edges (vertex_ref (snd entry)))
                 + fst (integrate (config ev) (startingVelocity (vertexVelocities ev) (fst entry))
                          (snd entry)) * timeStep (config ev)) (- 8) 8
          \<and> vy (deref edges' (vertex_ref (snd entry))) =
              wrapCoordinate
                (vy (deref edges (vertex_ref (snd entry)))
                 + snd (integrate (config ev) (startingVelocity (vertexVelocities ev) (fst entry))
                          (snd entry)) * timeStep (config ev)) (- 6) 6)
      \<and> (\<forall>r. refIndex r < length edges \<and> r \<notin> set (refsOf vf) \<longrightarrow>
            deref edges' r = deref edges r)"
    by (intro exI conjI) (rule 1(1) 1(2) 1(3) 1(4) p 1(6))+
  show ?thesis
    by (intro conjI) (rule a b c d e pass)+
qed

theorem wrapCoordinate_one_extent_witness:
  "(- 10 :: real) < - 8 \<and> wrapCoordinate (- 10) (- 8) 8 = 6
   \<and> (- 8 :: real) \<le> 30 \<and> (8 :: real) < 30 \<and> wrapCoordinate 30 (- 8) 8 = 14
   \<and> (- 8 :: real) \<le> 3 \<and> (3 :: real) \<le> 8
   \<and> wrapCoordinate 3 (- 8) 8 = 3 \<and> wrapCoordinate (wrapCoordinate 3 (- 8) 8) (- 8) 8 = 3
   \<and> (0 :: real) < 1 / 2 \<and> wrapCoordinate (8 + 1 / 2) (- 8) 8 = - 8 + 1 / 2
   \<and> - 8 \<le> wrapCoordinate (- 10) (- 8) 8 \<and> wrapCoordinate (- 10) (- 8) 8 \<le> 8
   \<and> vx (endv (borderEdges ! 0)) = 8
   \<and> vx (endv (edgesOf (applySpringForcesToEdges newEvolver borderEdges) ! 0)) =
       wrapCoordinate (8 + 10149 / 40000) (- 8) 8
   \<and> wrapCoordinate (8 + 10149 / 40000) (- 8) 8 = - 8 + 10149 / 40000"
proof -
  note w = wrapCoordinate_one_extent [of _ _ _ _ newEvolver borderEdges]
  have w1: "wrapCoordinate (- 10) (- 8) 8 = 6"
    "- 8 \<le> wrapCoordinate (- 10) (- 8) 8 \<and> wrapCoordinate (- 10) (- 8) 8 \<le> 8"
    using w [of "- 10" "- 8" 8] by simp_all
  have w2: "wrapCoordinate 30 (- 8) 8 = 14"
    using w [of 30 "- 8" 8] by simp
  have w3: "wrapCoordinate 3 (- 8) 8 = 3 \<and> wrapCoordinate (wrapCoordinate 3 (- 8) 8) (- 8) 8 = 3"
    using w [of 3 "- 8" 8] by simp
  have w4: "wrapCoordinate (8 + 1 / 2) (- 8) 8 = - 8 + 1 / 2"
    "wrapCoordinate (8 + 10149 / 40000) (- 8) 8 = - 8 + 10149 / 40000"
    using w [of 0 "- 8" 8 "1 / 2"] w [of 0 "- 8" 8 "10149 / 40000"] by simp_all
  obtain vf ev' edges' where p:
    "accumulateForces (config newEvolver) borderEdges (initForces borderEdges) = Inr vf"
    "applySpringForcesToEdges newEvolver borderEdges = Inr (ev', edges')"
    "\<forall>entry \<in> set vf.
            refIndex (vertex_ref (snd entry)) < length borderEdges
          \<and> fst entry = getVertexKey (deref borderEdges (vertex_ref (snd entry)))
          \<and> vx (deref edges' (vertex_ref (snd entry))) =
              wrapCoordinate
                (vx (deref borderEdges (vertex_ref (snd entry)))
                 + fst (integrate (config newEvolver)
                          (startingVelocity (vertexVelocities newEvolver) (fst entry))
                          (snd entry)) * timeStep (config newEvolver)) (- 8) 8
          \<and> vy (deref edges' (vertex_ref (snd entry))) =
              wrapCoordinate
                (vy (deref borderEdges (vertex_ref (snd entry)))
                 + snd (integrate (config newEvolver)
                          (startingVelocity (vertexVelocities newEvolver) (fst entry))
                          (snd entry)) * timeStep (config newEvolver)) (- 6) 6"
    using w by blast
  let ?entry = "((Fixed False 8000000, Fixed False 0), \<lparr>fx = 597 / 20, fy = 0, vertex_ref = EndOf 0\<rparr>)"
  have "?entry \<in> set vf"
    using p(1) unfolding border_a by auto
  from p(3) [THEN bspec, OF this]
  have "vx (endv (edges' ! 0)) =
      wrapCoordinate
        (vx (endv (borderEdges ! 0))
         + fst (integrate (config newEvolver)
                  (startingVelocity (vertexVelocities newEvolver) (Fixed False 8000000, Fixed False 0))
                  \<lparr>fx = 597 / 20, fy = 0, vertex_ref = EndOf 0\<rparr>) * timeStep (config newEvolver)) (- 8) 8"
    by simp
  moreover have "vx (endv (borderEdges ! 0))
         + fst (integrate (config newEvolver)
                  (startingVelocity (vertexVelocities newEvolver) (Fixed False 8000000, Fixed False 0))
                  \<lparr>fx = 597 / 20, fy = 0, vertex_ref = EndOf 0\<rparr>) * timeStep (config newEvolver)
      = 8 + 10149 / 40000"
    by (simp add: borderEdges_def newEdge_def newEvolver_def defaultConfig_def integrate_def
        startingVelocity_def)
  ultimately have moved: "vx (endv (edgesOf (applySpringForcesToEdges newEvolver borderEdges) ! 0)) =
       wrapCoordinate (8 + 10149 / 40000) (- 8) 8"
    unfolding p(2) by (simp add: edgesOf_def)
  have b: "vx (endv (borderEdges ! 0)) = 8"
    by (simp add: borderEdges_def newEdge_def)
  show ?thesis
    using w1 w2 w3 w4 moved b by simp
qed

section \<open>Angles between connected edges\<close>





















section \<open>Connectivity\<close>

lemma neighborsAt_gridPush:
  "neighborsAt (gridPush k entry g) k' =
     (if k' = k then neighborsAt g k @ [entry] else neighborsAt g k')"
  by (simp add: neighborsAt_def gridPush_def split: option.splits)

lemma groupEndpoints_fold:
  "fst ` set (neighborsAt
      (fold (\<lambda>i g. gridPush (getGridKey (endv (edges ! i))) (i, False)
                     (gridPush (getGridKey (start (edges ! i))) (i, True) g)) is g) k) =
   fst ` set (neighborsAt g k) \<union> {i \<in> set is. k \<in> bucketsOf (edges ! i)}"
proof (induction "is" arbitrary: g)
  case Nil
  then show ?case by simp
next
  case (Cons i "is")
  show ?case
    by (subst fold_simps) (auto simp: Cons.IH neighborsAt_gridPush bucketsOf_def)
qed

lemma groupEndpoints_members:
  "fst ` set (neighborsAt (groupEndpoints edges) k) =
     {i. i < length edges \<and> k \<in> bucketsOf (edges ! i)}"
proof -
  have e: "neighborsAt Map.empty k = []"
    by (simp add: neighborsAt_def)
  show ?thesis
    unfolding groupEndpoints_def groupEndpoints_fold e by auto
qed

lemma startLoop_set:
  "set (fold (\<lambda>neighbor c. if fst neighbor \<noteq> i then c @ [fst neighbor] else c) ns c0) =
     set c0 \<union> {j \<in> fst ` set ns. j \<noteq> i}"
  by (induction ns arbitrary: c0) auto

lemma endLoop_set:
  "set (fold (\<lambda>neighbor c.
               if fst neighbor \<noteq> i \<and> fst neighbor \<notin> set c then c @ [fst neighbor] else c) ns c0) =
     set c0 \<union> {j \<in> fst ` set ns. j \<noteq> i}"
  by (induction ns arbitrary: c0) auto

lemma connectEdge_set:
  "set (connectedEdges (connectEdge g i e)) =
     {j \<in> fst ` set (neighborsAt g (getGridKey (start e)))
           \<union> fst ` set (neighborsAt g (getGridKey (endv e))). j \<noteq> i}"
  by (auto simp: connectEdge_def Let_def startLoop_set endLoop_set)

lemma findConnectedEdges_length: "length (findConnectedEdges edges) = length edges"
  by (simp add: findConnectedEdges_def Let_def)

lemma findConnectedEdges_nth:
  "i < length edges \<Longrightarrow>
     findConnectedEdges edges ! i = connectEdge (groupEndpoints edges) i (edges ! i)"
  by (simp add: findConnectedEdges_def Let_def)

lemma connected_iff:
  assumes "i < length edges"
  shows "j \<in> set (connectedEdges (findConnectedEdges edges ! i)) \<longleftrightarrow>
           j < length edges \<and> j \<noteq> i \<and> bucketsOf (edges ! i) \<inter> bucketsOf (edges ! j) \<noteq> {}"
  using assms
  by (auto simp: findConnectedEdges_nth connectEdge_set groupEndpoints_members bucketsOf_def)

text \<open>
  Claim C4. After \<^verbatim>\<open>findConnectedEdges\<close>, for all edges \<open>A\<close> and \<open>B\<close> of the list
  (given by their indices, which is what \<open>connectedEdges\<close> holds): \<open>B\<close> is in the
  connected edges of \<open>A\<close> exactly when \<open>A\<close> is in those of \<open>B\<close>, no edge lists itself,
  every listed index is an index of the list, and the list keeps its length.
\<close>

theorem connectedEdges_symmetric_irreflexive:
  assumes "i < length edges" "j < length edges"
  shows "(j \<in> set (connectedEdges (findConnectedEdges edges ! i)) \<longleftrightarrow>
            i \<in> set (connectedEdges (findConnectedEdges edges ! j)))
       \<and> i \<notin> set (connectedEdges (findConnectedEdges edges ! i))
       \<and> set (connectedEdges (findConnectedEdges edges ! i)) \<subseteq> {..<length edges}
       \<and> length (findConnectedEdges edges) = length edges"
  using assms connected_iff [of i edges] connected_iff [of j edges i]
  by (auto simp: findConnectedEdges_length Int_commute)

theorem connectedEdges_symmetric_irreflexive_witness:
  "(0::nat) < length cornerEdges \<and> (1::nat) < length cornerEdges
   \<and> 1 \<in> set (connectedEdges (findConnectedEdges cornerEdges ! 0))
   \<and> 0 \<in> set (connectedEdges (findConnectedEdges cornerEdges ! 1))
   \<and> 0 \<notin> set (connectedEdges (findConnectedEdges cornerEdges ! 0))
   \<and> 2 \<notin> set (connectedEdges (findConnectedEdges cornerEdges ! 0))
   \<and> 0 \<notin> set (connectedEdges (findConnectedEdges cornerEdges ! 2))"
  using connectedEdges_symmetric_irreflexive [of 0 cornerEdges 1]
    connectedEdges_symmetric_irreflexive [of 0 cornerEdges 2]
  by (simp add: cornerEdges_def findConnectedEdges_def groupEndpoints_def gridPush_def
      getGridKey_def mathRound_def gridSize_def newEdge_def connectEdge_def neighborsAt_def Let_def)

section \<open>Edge extraction\<close>

lemma createEdgeKey_commute: "createEdgeKey a b = createEdgeKey b a"
  by (cases a, cases b) (auto simp: createEdgeKey_def Let_def)

lemma keyOfEdge_newEdge [simp]:
  "keyOfEdge ((newEdge i a b c)\<lparr>connectedCells := l\<rparr>) = createEdgeKey a b"
  "keyOfEdge (newEdge i a b c) = createEdgeKey a b"
  by (simp_all add: keyOfEdge_def newEdge_def)

lemma keyOfEdge_connectedCells [simp]:
  "keyOfEdge (e\<lparr>connectedCells := l\<rparr>) = keyOfEdge e"
  by (simp add: keyOfEdge_def)

lemma find_snoc:
  "List.find P (xs @ [x]) =
     (case List.find P xs of None \<Rightarrow> (if P x then Some x else None) | Some y \<Rightarrow> Some y)"
  by (induction xs) auto

lemma find_key: "List.find P xs = Some t \<Longrightarrow> P t"
  by (induction xs) (auto split: if_splits)

lemma find_mem: "List.find P xs = Some t \<Longrightarrow> t \<in> set xs"
  by (induction xs) (auto split: if_splits)

lemma processCandidate_pair: "processCandidate (n, pr) = processPair n (fst pr) (snd pr)"
  by (rule ext) (simp add: processCandidate_def)

lemma cellsLoop_fold:
  "cellsLoop n cells s = fold processCandidate (candidatesFrom n cells) s"
proof (induction cells arbitrary: n s)
  case Nil
  then show ?case by simp
next
  case (Cons c cs)
  have "processCell n c s = fold processCandidate (map (\<lambda>pr. (n, pr)) (cellPairs c)) s"
    by (simp add: processCell_def cellPairs_def fold_map comp_def processCandidate_pair
        split: option.splits)
  then show ?case by (simp add: Cons.IH)
qed

lemma extracted_init: "extracted [] ([], Map.empty)"
  by (simp add: extracted_def)

lemma extracted_step:
  assumes "extracted ts s"
  shows "extracted (ts @ [t]) (processCandidate t s)"
proof -
  define k0 where "k0 = keyOfCandidate t"
  define edges where "edges = fst s"
  define edgeMap where "edgeMap = snd s"
  have A: "case List.find (\<lambda>t. keyOfCandidate t = k) ts of
            None \<Rightarrow> edgeMap k = None
          | Some t \<Rightarrow>
              (\<exists>i < length edges. edgeMap k = Some i
                 \<and> edges ! i = (newEdge i (fst (snd t)) (snd (snd t)) (fst t))
                                 \<lparr>connectedCells := ownersOf k ts\<rparr>)" for k
    using assms unfolding extracted_def edges_def edgeMap_def by blast
  have B: "edgeMap (keyOfEdge (edges ! i)) = Some i" if "i < length edges" for i
    using assms that unfolding extracted_def edges_def edgeMap_def by blast
  have owners_other: "ownersOf k (ts @ [t]) = ownersOf k ts" if "k \<noteq> k0" for k
    using that by (auto simp: ownersOf_def k0_def)
  have owners_same: "ownersOf k0 (ts @ [t]) = ownersOf k0 ts @ [fst t]"
    by (simp add: ownersOf_def k0_def)
  have find_other: "List.find (\<lambda>t. keyOfCandidate t = k) (ts @ [t])
      = List.find (\<lambda>t. keyOfCandidate t = k) ts" if "k \<noteq> k0" for k
    using that by (auto simp: find_snoc k0_def split: option.splits)
  show ?thesis
  proof (cases "edgeMap k0")
    case None
    have nofind: "List.find (\<lambda>t. keyOfCandidate t = k0) ts = None"
      using A [of k0] None by (auto split: option.splits)
    then have "\<forall>x \<in> set ts. keyOfCandidate x \<noteq> k0"
      unfolding find_None_iff by blast
    then have "filter (\<lambda>t. keyOfCandidate t = k0) ts = []"
      unfolding filter_empty_conv by blast
    then have noowner: "ownersOf k0 ts = []"
      by (simp add: ownersOf_def)
    define ne where "ne = newEdge (length edges) (fst (snd t)) (snd (snd t)) (fst t)"
    have s': "processCandidate t s = (edges @ [ne], edgeMap(k0 \<mapsto> length edges))"
      using None
      by (simp add: processCandidate_def processPair_def Let_def edges_def edgeMap_def
          k0_def keyOfCandidate_def ne_def)
    have kne: "keyOfEdge ne = k0"
      by (simp add: ne_def k0_def keyOfCandidate_def)
    have A': "case List.find (\<lambda>t. keyOfCandidate t = k) (ts @ [t]) of
            None \<Rightarrow> (edgeMap(k0 \<mapsto> length edges)) k = None
          | Some t' \<Rightarrow>
              (\<exists>i < length (edges @ [ne]). (edgeMap(k0 \<mapsto> length edges)) k = Some i
                 \<and> (edges @ [ne]) ! i = (newEdge i (fst (snd t')) (snd (snd t')) (fst t'))
                                 \<lparr>connectedCells := ownersOf k (ts @ [t])\<rparr>)" for k
    proof (cases "k = k0")
      case True
      have f: "List.find (\<lambda>t. keyOfCandidate t = k) (ts @ [t]) = Some t"
        using nofind True by (simp add: find_snoc k0_def)
      have "ne = ne\<lparr>connectedCells := ownersOf k (ts @ [t])\<rparr>"
        using True by (simp add: owners_same noowner ne_def newEdge_def)
      then show ?thesis
        using True f by (auto simp: ne_def)
    next
      case False
      show ?thesis
      proof (cases "List.find (\<lambda>t. keyOfCandidate t = k) ts")
        case None
        then show ?thesis using A [of k] False by (simp add: find_other)
      next
        case (Some t')
        then obtain i where i: "i < length edges" "edgeMap k = Some i"
          "edges ! i = (newEdge i (fst (snd t')) (snd (snd t')) (fst t'))
                                 \<lparr>connectedCells := ownersOf k ts\<rparr>"
          using A [of k] by auto
        have "(edges @ [ne]) ! i = edges ! i"
          using i(1) by (simp add: nth_append)
        then show ?thesis
          using Some i False by (simp add: find_other owners_other)
      qed
    qed
    have B': "(edgeMap(k0 \<mapsto> length edges)) (keyOfEdge ((edges @ [ne]) ! i)) = Some i"
      if "i < length (edges @ [ne])" for i
    proof (cases "i < length edges")
      case True
      then have "edgeMap (keyOfEdge (edges ! i)) = Some i" by (rule B)
      then have "keyOfEdge (edges ! i) \<noteq> k0" using None by auto
      then show ?thesis using True B [of i] by (simp add: nth_append)
    next
      case False
      then have "i = length edges" using that by simp
      then show ?thesis by (simp add: kne)
    qed
    show ?thesis
      unfolding extracted_def s' fst_conv snd_conv
    proof (intro conjI allI impI)
      fix k
      show "case List.find (\<lambda>t. keyOfCandidate t = k) (ts @ [t]) of
              None \<Rightarrow> (edgeMap(k0 \<mapsto> length edges)) k = None
            | Some t' \<Rightarrow>
                (\<exists>i < length (edges @ [ne]). (edgeMap(k0 \<mapsto> length edges)) k = Some i
                   \<and> (edges @ [ne]) ! i = (newEdge i (fst (snd t')) (snd (snd t')) (fst t'))
                                   \<lparr>connectedCells := ownersOf k (ts @ [t])\<rparr>)"
        by (rule A')
    next
      fix i assume "i < length (edges @ [ne])"
      then show "(edgeMap(k0 \<mapsto> length edges)) (keyOfEdge ((edges @ [ne]) ! i)) = Some i"
        by (rule B')
    qed
  next
    case (Some i0)
    obtain t0 where f0: "List.find (\<lambda>t. keyOfCandidate t = k0) ts = Some t0"
      using A [of k0] Some by (auto split: option.splits)
    have i0: "i0 < length edges"
      and e0: "edges ! i0 = (newEdge i0 (fst (snd t0)) (snd (snd t0)) (fst t0))
                                 \<lparr>connectedCells := ownersOf k0 ts\<rparr>"
      using A [of k0] Some f0 by auto
    define e' where "e' = (edges ! i0)\<lparr>connectedCells := connectedCells (edges ! i0) @ [fst t]\<rparr>"
    have s': "processCandidate t s = (edges[i0 := e'], edgeMap)"
      using Some
      by (simp add: processCandidate_def processPair_def Let_def edges_def edgeMap_def
          k0_def keyOfCandidate_def e'_def)
    have e'_eq: "e' = (newEdge i0 (fst (snd t0)) (snd (snd t0)) (fst t0))
                                 \<lparr>connectedCells := ownersOf k0 (ts @ [t])\<rparr>"
      by (simp add: e'_def e0 owners_same)
    have key0: "keyOfEdge (edges ! i0) = k0"
      using find_key [OF f0] by (simp add: e0 keyOfCandidate_def)
    have A': "case List.find (\<lambda>t. keyOfCandidate t = k) (ts @ [t]) of
            None \<Rightarrow> edgeMap k = None
          | Some t' \<Rightarrow>
              (\<exists>i < length (edges[i0 := e']). edgeMap k = Some i
                 \<and> (edges[i0 := e']) ! i = (newEdge i (fst (snd t')) (snd (snd t')) (fst t'))
                                 \<lparr>connectedCells := ownersOf k (ts @ [t])\<rparr>)" for k
    proof (cases "k = k0")
      case True
      have f: "List.find (\<lambda>t. keyOfCandidate t = k) (ts @ [t]) = Some t0"
        using f0 True by (simp add: find_snoc)
      show ?thesis
        using True f i0 Some e'_eq by simp
    next
      case False
      show ?thesis
      proof (cases "List.find (\<lambda>t. keyOfCandidate t = k) ts")
        case None
        then show ?thesis using A [of k] False by (simp add: find_other)
      next
        case (Some t')
        then obtain i where i: "i < length edges" "edgeMap k = Some i"
          "edges ! i = (newEdge i (fst (snd t')) (snd (snd t')) (fst t'))
                                 \<lparr>connectedCells := ownersOf k ts\<rparr>"
          using A [of k] by auto
        have "keyOfEdge (edges ! i) = k"
          using find_key [OF Some] by (simp add: i(3) keyOfCandidate_def)
        then have "i \<noteq> i0"
          using key0 False by auto
        then show ?thesis
          using Some i False by (simp add: find_other owners_other)
      qed
    qed
    have B': "edgeMap (keyOfEdge ((edges[i0 := e']) ! i)) = Some i"
      if "i < length (edges[i0 := e'])" for i
    proof (cases "i = i0")
      case True
      then show ?thesis using i0 key0 Some B [of i0] by (simp add: e'_def)
    next
      case False
      then show ?thesis using that B [of i] by simp
    qed
    show ?thesis
      unfolding extracted_def s' fst_conv snd_conv
    proof (intro conjI allI impI)
      fix k
      show "case List.find (\<lambda>t. keyOfCandidate t = k) (ts @ [t]) of
              None \<Rightarrow> edgeMap k = None
            | Some t' \<Rightarrow>
                (\<exists>i < length (edges[i0 := e']). edgeMap k = Some i
                   \<and> (edges[i0 := e']) ! i = (newEdge i (fst (snd t')) (snd (snd t')) (fst t'))
                                   \<lparr>connectedCells := ownersOf k (ts @ [t])\<rparr>)"
        by (rule A')
    next
      fix i assume "i < length (edges[i0 := e'])"
      then show "edgeMap (keyOfEdge ((edges[i0 := e']) ! i)) = Some i"
        by (rule B')
    qed
  qed
qed

lemma extracted_fold: "extracted ts (fold processCandidate ts ([], Map.empty))"
proof (induction ts rule: rev_induct)
  case Nil
  then show ?case by (simp add: extracted_init)
next
  case (snoc t ts)
  then show ?case by (simp add: extracted_step)
qed

lemma extracted_cells:
  "extracted (candidatesFrom 0 cells) (cellsLoop 0 cells ([], Map.empty))"
  by (simp add: cellsLoop_fold extracted_fold)

lemma extracted_edges:
  "\<exists>edgeMap. extracted (candidatesFrom 0 cells) (extractEdgesFromCells [] cells, edgeMap)"
proof -
  have "extracted (candidatesFrom 0 cells)
          (fst (cellsLoop 0 cells ([], Map.empty)), snd (cellsLoop 0 cells ([], Map.empty)))"
    using extracted_cells by simp
  then show ?thesis
    unfolding extractEdgesFromCells_def by blast
qed

lemma extracted_distinct:
  assumes "extracted ts (es, m)"
  shows "distinct (map keyOfEdge es)"
proof -
  have B: "m (keyOfEdge (es ! i)) = Some i" if "i < length es" for i
    using assms that unfolding extracted_def fst_conv snd_conv by blast
  have "i = j" if "i < length es" "j < length es" "keyOfEdge (es ! i) = keyOfEdge (es ! j)" for i j
  proof -
    have "m (keyOfEdge (es ! j)) = Some i"
      using B [OF that(1)] unfolding that(3) .
    then show ?thesis
      using B [OF that(2)] by simp
  qed
  then show ?thesis
    by (auto simp: distinct_conv_nth)
qed

lemma extracted_edge:
  assumes "extracted ts (es, m)" "i < length es"
  shows "\<exists>t. List.find (\<lambda>t. keyOfCandidate t = keyOfEdge (es ! i)) ts = Some t
            \<and> es ! i = (newEdge i (fst (snd t)) (snd (snd t)) (fst t))
                          \<lparr>connectedCells := ownersOf (keyOfEdge (es ! i)) ts\<rparr>"
proof -
  define k where "k = keyOfEdge (es ! i)"
  have A: "case List.find (\<lambda>t. keyOfCandidate t = k) ts of
            None \<Rightarrow> m k = None
          | Some t \<Rightarrow>
              (\<exists>i < length es. m k = Some i
                 \<and> es ! i = (newEdge i (fst (snd t)) (snd (snd t)) (fst t))
                                 \<lparr>connectedCells := ownersOf k ts\<rparr>)"
    using assms(1) unfolding extracted_def fst_conv snd_conv by blast
  have B: "m k = Some i"
    using assms unfolding extracted_def fst_conv snd_conv k_def by blast
  show ?thesis
    using A B unfolding k_def [symmetric] by (auto split: option.splits)
qed

lemma extracted_candidate:
  assumes "extracted ts (es, m)" "t \<in> set ts"
  shows "\<exists>i < length es. keyOfEdge (es ! i) = keyOfCandidate t
            \<and> connectedCells (es ! i) = ownersOf (keyOfCandidate t) ts"
proof -
  define k where "k = keyOfCandidate t"
  have A: "case List.find (\<lambda>t. keyOfCandidate t = k) ts of
            None \<Rightarrow> m k = None
          | Some t \<Rightarrow>
              (\<exists>i < length es. m k = Some i
                 \<and> es ! i = (newEdge i (fst (snd t)) (snd (snd t)) (fst t))
                                 \<lparr>connectedCells := ownersOf k ts\<rparr>)"
    using assms(1) unfolding extracted_def fst_conv snd_conv by blast
  have "List.find (\<lambda>t. keyOfCandidate t = k) ts \<noteq> None"
    unfolding find_None_iff k_def using assms(2) by blast
  then obtain t' where f: "List.find (\<lambda>t. keyOfCandidate t = k) ts = Some t'"
    by blast
  then obtain i where i: "i < length es"
      "es ! i = (newEdge i (fst (snd t')) (snd (snd t')) (fst t'))\<lparr>connectedCells := ownersOf k ts\<rparr>"
    using A by auto
  have "keyOfEdge (es ! i) = k"
    using find_key [OF f] by (simp add: i(2) keyOfCandidate_def)
  moreover have "connectedCells (es ! i) = ownersOf k ts"
    by (simp add: i(2))
  ultimately show ?thesis
    using i(1) unfolding k_def by blast
qed

lemma candidate_mem:
  "c < length cells \<Longrightarrow> polygon (cells ! c) = Some p \<Longrightarrow> j < length p \<Longrightarrow>
     (n + c, p ! j, p ! ((j + 1) mod length p)) \<in> set (candidatesFrom n cells)"
proof (induction cells arbitrary: n c)
  case Nil
  then show ?case by simp
next
  case (Cons a cells)
  show ?case
  proof (cases c)
    case 0
    then have "(p ! j, p ! ((j + 1) mod length p)) \<in> set (cellPairs a)"
      using Cons.prems by (auto simp: cellPairs_def polygonPairs_def)
    then show ?thesis using 0 by auto
  next
    case (Suc c')
    then have "(Suc n + c', p ! j, p ! ((j + 1) mod length p)) \<in> set (candidatesFrom (Suc n) cells)"
      using Cons.prems by (intro Cons.IH) auto
    then show ?thesis using Suc by simp
  qed
qed

lemma candidate_keys:
  "keyOfCandidate ` set (candidatesFrom n cells) = (\<Union>c \<in> set cells. cellKeys c)"
  by (induction cells arbitrary: n)
     (auto simp: cellKeys_def keyOfCandidate_def image_Un image_image)

lemma extracted_keys:
  "set (map keyOfEdge (extractEdgesFromCells [] cells)) = (\<Union>c \<in> set cells. cellKeys c)"
proof -
  obtain m where ex: "extracted (candidatesFrom 0 cells) (extractEdgesFromCells [] cells, m)"
    using extracted_edges by blast
  let ?es = "extractEdgesFromCells [] cells" and ?ts = "candidatesFrom 0 cells"
  have "keyOfEdge (?es ! i) \<in> keyOfCandidate ` set ?ts" if len: "i < length ?es" for i
  proof -
    obtain t where "List.find (\<lambda>t. keyOfCandidate t = keyOfEdge (?es ! i)) ?ts = Some t"
      using extracted_edge [OF ex len] by blast
    then have "t \<in> set ?ts" "keyOfCandidate t = keyOfEdge (?es ! i)"
      using find_mem find_key by fast+
    then show ?thesis
      by (metis imageI)
  qed
  then have 1: "set (map keyOfEdge ?es) \<subseteq> keyOfCandidate ` set ?ts"
    by (auto simp: in_set_conv_nth)
  have 2: "keyOfCandidate ` set ?ts \<subseteq> set (map keyOfEdge ?es)"
  proof
    fix k assume "k \<in> keyOfCandidate ` set ?ts"
    then obtain t where "t \<in> set ?ts" "k = keyOfCandidate t" by blast
    then obtain i where "i < length ?es" "keyOfEdge (?es ! i) = k"
      using extracted_candidate [OF ex] by blast
    then have "k \<in> keyOfEdge ` set ?es"
      using nth_mem by blast
    then show "k \<in> set (map keyOfEdge ?es)" by simp
  qed
  have "set (map keyOfEdge ?es) = keyOfCandidate ` set ?ts"
    using 1 2 by (rule subset_antisym)
  then show ?thesis
    by (simp only: candidate_keys)
qed

lemma extracted_length:
  "length (extractEdgesFromCells [] cells) = card (\<Union>c \<in> set cells. cellKeys c)"
proof -
  obtain m where ex: "extracted (candidatesFrom 0 cells) (extractEdgesFromCells [] cells, m)"
    using extracted_edges by blast
  have "card (set (map keyOfEdge (extractEdgesFromCells [] cells)))
          = length (map keyOfEdge (extractEdgesFromCells [] cells))"
    by (rule distinct_card) (rule extracted_distinct [OF ex])
  then show ?thesis
    unfolding extracted_keys by simp
qed

lemma same_cells_same_length:
  "set cells' = set cells \<Longrightarrow>
     length (extractEdgesFromCells [] cells') = length (extractEdgesFromCells [] cells)"
  by (simp add: extracted_length)

lemma polygonPairs_set:
  "set (polygonPairs p) = {(p ! i, p ! ((i + 1) mod length p)) | i. i < length p}"
  by (auto simp: polygonPairs_def)

lemma polygonPairs_rev_subset:
  "set (polygonPairs (rev p)) \<subseteq> (\<lambda>pr. (snd pr, fst pr)) ` set (polygonPairs p)"
proof
  fix pr assume "pr \<in> set (polygonPairs (rev p))"
  then obtain i where i: "i < length p"
      and pr: "pr = (rev p ! i, rev p ! ((i + 1) mod length p))"
    by (auto simp: polygonPairs_set)
  define n where "n = length p"
  define j where "j = n - 1 - ((i + 1) mod n)"
  have n: "0 < n" "i < n" using i by (auto simp: n_def)
  have m: "(i + 1) mod n < n" using n by simp
  have j: "j < n" using n by (simp add: j_def)
  have 1: "rev p ! ((i + 1) mod length p) = p ! j"
    using m by (simp add: rev_nth n_def j_def)
  have "(j + 1) mod n = n - 1 - i"
  proof (cases "i + 1 = n")
    case True
    then show ?thesis using n by (simp add: j_def)
  next
    case False
    then have "i + 1 < n" using n by simp
    then show ?thesis by (simp add: j_def)
  qed
  then have 2: "rev p ! i = p ! ((j + 1) mod length p)"
    using i by (simp add: rev_nth n_def)
  have "(p ! j, p ! ((j + 1) mod length p)) \<in> set (polygonPairs p)"
    using j by (auto simp: polygonPairs_set n_def)
  then show "pr \<in> (\<lambda>pr. (snd pr, fst pr)) ` set (polygonPairs p)"
    unfolding pr 1 2 by force
qed

lemma polygonPairs_rev_keys:
  "(\<lambda>pr. createEdgeKey (fst pr) (snd pr)) ` set (polygonPairs (rev p))
     = (\<lambda>pr. createEdgeKey (fst pr) (snd pr)) ` set (polygonPairs p)"
proof -
  have sub: "(\<lambda>pr. createEdgeKey (fst pr) (snd pr)) ` set (polygonPairs (rev q))
     \<subseteq> (\<lambda>pr. createEdgeKey (fst pr) (snd pr)) ` set (polygonPairs q)" for q
  proof
    fix k assume "k \<in> (\<lambda>pr. createEdgeKey (fst pr) (snd pr)) ` set (polygonPairs (rev q))"
    then obtain pr where "pr \<in> set (polygonPairs (rev q))" "k = createEdgeKey (fst pr) (snd pr)"
      by blast
    then obtain pr' where "pr' \<in> set (polygonPairs q)" "pr = (snd pr', fst pr')"
      using polygonPairs_rev_subset [of q] by blast
    moreover from this have "k = createEdgeKey (fst pr') (snd pr')"
      using \<open>k = createEdgeKey (fst pr) (snd pr)\<close> by (simp add: createEdgeKey_commute)
    ultimately show "k \<in> (\<lambda>pr. createEdgeKey (fst pr) (snd pr)) ` set (polygonPairs q)"
      by blast
  qed
  show ?thesis
    using sub [of p] sub [of "rev p"] by auto
qed

lemma cellKeys_reverseWinding: "cellKeys (reverseWinding c) = cellKeys c"
  by (cases "polygon c")
     (simp_all add: cellKeys_def cellPairs_def reverseWinding_def polygonPairs_rev_keys)

lemma reversed_same_length:
  "length (extractEdgesFromCells [] (map reverseWinding cells))
     = length (extractEdgesFromCells [] cells)"
  by (simp add: extracted_length cellKeys_reverseWinding)

lemma pair_has_one_edge:
  assumes "c < length cells" "polygon (cells ! c) = Some p" "j < length p"
  shows "\<exists>!i. i < length (extractEdgesFromCells [] cells)
            \<and> keyOfEdge (extractEdgesFromCells [] cells ! i)
                = createEdgeKey (p ! j) (p ! ((j + 1) mod length p))"
    and "\<forall>i < length (extractEdgesFromCells [] cells).
            keyOfEdge (extractEdgesFromCells [] cells ! i)
                = createEdgeKey (p ! j) (p ! ((j + 1) mod length p)) \<longrightarrow>
            c \<in> set (connectedCells (extractEdgesFromCells [] cells ! i))
          \<and> connectedCells (extractEdgesFromCells [] cells ! i)
              = ownersOf (createEdgeKey (p ! j) (p ! ((j + 1) mod length p)))
                  (candidatesFrom 0 cells)"
proof -
  let ?es = "extractEdgesFromCells [] cells" and ?ts = "candidatesFrom 0 cells"
  let ?t = "(c, p ! j, p ! ((j + 1) mod length p))"
  let ?k = "createEdgeKey (p ! j) (p ! ((j + 1) mod length p))"
  obtain m where ex: "extracted ?ts (?es, m)"
    using extracted_edges by blast
  have mem: "?t \<in> set ?ts"
    using candidate_mem [OF assms, of 0] by simp
  have kt: "keyOfCandidate ?t = ?k"
    by (simp add: keyOfCandidate_def)
  obtain i where i: "i < length ?es" "keyOfEdge (?es ! i) = ?k"
      "connectedCells (?es ! i) = ownersOf ?k ?ts"
    using extracted_candidate [OF ex mem] unfolding kt by blast
  have d: "distinct (map keyOfEdge ?es)"
    by (rule extracted_distinct [OF ex])
  have uniq: "i' = i" if "i' < length ?es" "keyOfEdge (?es ! i') = ?k" for i'
    using d that i(1,2) by (simp add: distinct_conv_nth) metis
  show "\<exists>!i. i < length ?es \<and> keyOfEdge (?es ! i) = ?k"
    using i(1,2) uniq by blast
  have "c \<in> set (ownersOf ?k ?ts)"
    using mem kt by (force simp: ownersOf_def)
  then show "\<forall>i < length ?es. keyOfEdge (?es ! i) = ?k \<longrightarrow>
            c \<in> set (connectedCells (?es ! i)) \<and> connectedCells (?es ! i) = ownersOf ?k ?ts"
    using uniq i(3) by metis
qed

lemma processPair_repeated:
  assumes "snd s (createEdgeKey a b) = Some i"
  shows "fst (processPair c a b s) =
           (fst s)[i := (fst s ! i)\<lparr>connectedCells := connectedCells (fst s ! i) @ [c]\<rparr>]"
    and "length (fst (processPair c a b s)) = length (fst s)"
  using assms by (simp_all add: processPair_def Let_def)

lemmas extract_defs = extractEdgesFromCells_def processCell_def polygonPairs_def processPair_def
  createEdgeKey_def toFixed6_def newEdge_def Let_def

lemma twoTriangles_extracted:
  "length (extractEdgesFromCells [] twoTriangles) = 5"
  "keyOfEdge (extractEdgesFromCells [] twoTriangles ! 1) = createEdgeKey (0, 1) (1, 0)"
  "connectedCells (extractEdgesFromCells [] twoTriangles ! 1) = [0, 1]"
  by (simp_all add: twoTriangles_def extract_defs keyOfEdge_def)

lemma toFixed6_rounds:
  assumes "\<bar>x\<bar> < 10 ^ 21"
  shows "\<exists>n. toFixed6 x = Fixed (x < 0) n
           \<and> real n \<le> \<bar>x\<bar> * 10 ^ 6 + 1 / 2 \<and> \<bar>x\<bar> * 10 ^ 6 + 1 / 2 < real n + 1"
proof -
  define z where "z = \<bar>x\<bar> * 10 ^ 6 + 1 / 2"
  have z: "0 \<le> z" by (simp add: z_def)
  then have f: "0 \<le> \<lfloor>z\<rfloor>" by simp
  have "real (nat \<lfloor>z\<rfloor>) = of_int \<lfloor>z\<rfloor>"
    using f by simp
  then have "real (nat \<lfloor>z\<rfloor>) \<le> z \<and> z < real (nat \<lfloor>z\<rfloor>) + 1"
    by linarith
  moreover have "toFixed6 x = Fixed (x < 0) (nat \<lfloor>z\<rfloor>)"
    using assms by (simp add: toFixed6_def z_def)
  ultimately show ?thesis
    unfolding z_def by blast
qed

lemma toFixed6_close:
  assumes "toFixed6 x = toFixed6 y"
  shows "\<bar>x - y\<bar> < 1 / 10 ^ 6"
proof (cases "\<bar>x\<bar> \<ge> 10 ^ 21")
  case True
  then have "x = y"
    using assms by (auto simp: toFixed6_def split: if_splits)
  then show ?thesis by simp
next
  case False
  then have y: "\<not> \<bar>y\<bar> \<ge> 10 ^ 21"
    using assms by (auto simp: toFixed6_def split: if_splits)
  define u where "u = \<bar>x\<bar> * 10 ^ 6 + 1 / 2"
  define v where "v = \<bar>y\<bar> * 10 ^ 6 + 1 / 2"
  have s: "(x < 0) = (y < 0)" and n: "nat \<lfloor>u\<rfloor> = nat \<lfloor>v\<rfloor>"
    using assms False y by (simp_all add: toFixed6_def u_def v_def)
  have "0 \<le> u" "0 \<le> v" by (simp_all add: u_def v_def)
  then have "0 \<le> \<lfloor>u\<rfloor>" "0 \<le> \<lfloor>v\<rfloor>" by simp_all
  then have "\<lfloor>u\<rfloor> = int (nat \<lfloor>u\<rfloor>)" "\<lfloor>v\<rfloor> = int (nat \<lfloor>v\<rfloor>)" by simp_all
  then have "\<lfloor>u\<rfloor> = \<lfloor>v\<rfloor>" unfolding n by simp
  then have "\<bar>u - v\<bar> < 1" by linarith
  moreover have "u - v = (\<bar>x\<bar> - \<bar>y\<bar>) * 1000000"
    by (simp add: u_def v_def)
  ultimately have w: "\<bar>(\<bar>x\<bar> - \<bar>y\<bar>) * 1000000\<bar> < 1"
    by simp
  have a: "\<bar>\<bar>x\<bar> - \<bar>y\<bar>\<bar> < 1 / 10 ^ 6"
  proof -
    define w where "w = \<bar>x\<bar> - \<bar>y\<bar>"
    have "\<bar>w * 1000000\<bar> < 1" using w by (simp add: w_def)
    then have "- 1 < w * 1000000 \<and> w * 1000000 < 1" by linarith
    then have "- (1 / 1000000) < w \<and> w < 1 / 1000000" by linarith
    then have "\<bar>w\<bar> < 1 / 1000000" by linarith
    then have "\<bar>w\<bar> < 1 / 10 ^ 6" by simp
    then show ?thesis by (simp only: w_def)
  qed
  have "\<bar>x - y\<bar> = \<bar>\<bar>x\<bar> - \<bar>y\<bar>\<bar>"
    using s by (cases "x < 0") auto
  then show ?thesis using a by simp
qed

lemma createEdgeKey_ordered:
  "createEdgeKey a b = (if lexLess a b then (printed a, printed b) else (printed b, printed a))"
  by (simp add: createEdgeKey_def lexLess_def printed_def Let_def)

lemma printed_near: "printed a = printed b \<Longrightarrow> near a b"
proof -
  assume "printed a = printed b"
  then have "toFixed6 (fst a) = toFixed6 (fst b)" "toFixed6 (snd a) = toFixed6 (snd b)"
    by (simp_all add: printed_def)
  then show ?thesis
    unfolding near_def using toFixed6_close by blast
qed

lemma same_key_near:
  assumes "createEdgeKey a b = createEdgeKey a' b'"
  shows "near a a' \<and> near b b' \<or> near a b' \<and> near b a'"
  using assms printed_near unfolding createEdgeKey_ordered
  by (auto split: if_splits)

lemma same_order_same_key:
  assumes "lexLess a b \<longleftrightarrow> lexLess a' b'" "printed a = printed a'" "printed b = printed b'"
  shows "createEdgeKey a b = createEdgeKey a' b'"
  using assms by (simp add: createEdgeKey_ordered)

text \<open>
  Claim C5, as the code has it. The claim says that each physical edge appears exactly
  once, under a key of rounded coordinates in a total order. \<^verbatim>\<open>createEdgeKey\<close> orders
  the endpoints by their exact coordinates and rounds them afterwards: the pair from
  \<open>(0.0000001, 5)\<close> to \<open>(0, 0)\<close> and the pair from \<open>(0, 5)\<close> to \<open>(0.0000001, 0)\<close>
  print the same two endpoints, yet their keys differ, and two triangles that hold
  them yield six edges, each owned by one cell.
\<close>

theorem physical_edge_twice_counterexample:
  "printed (1 / 10 ^ 7, 5) = printed (0, 5) \<and> printed (0, 0) = printed (1 / 10 ^ 7, 0)
   \<and> createEdgeKey (1 / 10 ^ 7, 5) (0, 0) \<noteq> createEdgeKey (0, 5) (1 / 10 ^ 7, 0)
   \<and> length (extractEdgesFromCells [] noisyTriangles) = 6
   \<and> map connectedCells (extractEdgesFromCells [] noisyTriangles) = [[0], [0], [0], [1], [1], [1]]"
  by (simp add: noisyTriangles_def printed_def extractEdgesFromCells_def processCell_def
      polygonPairs_def processPair_def createEdgeKey_def toFixed6_def newEdge_def Let_def)

text \<open>
  Claim C5, amended. The key lists the two endpoints, each printed with six decimals,
  in their lexicographic order on the exact coordinates, compared before the rounding;
  printing a number below \<open>10^21\<close> in magnitude keeps its sign and the integer nearest
  to the magnitude times \<open>10^6\<close>. So the key is the same for both directions of a
  segment, and for two pairs that print the same endpoints and are ordered the same
  way; two pairs with the same key have endpoints that differ by less than \<open>10^-6\<close> in
  each coordinate. In the list extracted from any cells the keys of the edges are
  pairwise distinct, and every consecutive pair of every polygon has exactly one edge
  with its key; that edge is also the one found under the key of the reversed pair, its
  owning cells are exactly the cells of all pairs with the key, in the order of the
  traversal, the cell of the pair among them. The number of edges is the same for the
  same cells in any order and for the cells with every polygon reversed. A pair whose
  key is already in the map leaves the number of edges as it is and appends its cell to
  the owning cells of the edge stored under the key.
\<close>

theorem each_edge_extracted_once:
  "createEdgeKey a b = createEdgeKey b a
   \<and> distinct (map keyOfEdge (extractEdgesFromCells [] cells))
   \<and> (\<forall>c < length cells. \<forall>p. polygon (cells ! c) = Some p \<longrightarrow>
        (\<forall>j < length p.
           (\<exists>!i. i < length (extractEdgesFromCells [] cells)
                 \<and> keyOfEdge (extractEdgesFromCells [] cells ! i)
                     = createEdgeKey (p ! j) (p ! ((j + 1) mod length p)))
         \<and> (\<forall>i < length (extractEdgesFromCells [] cells).
               keyOfEdge (extractEdgesFromCells [] cells ! i)
                   = createEdgeKey (p ! ((j + 1) mod length p)) (p ! j) \<longrightarrow>
               c \<in> set (connectedCells (extractEdgesFromCells [] cells ! i))
             \<and> connectedCells (extractEdgesFromCells [] cells ! i)
                 = ownersOf (createEdgeKey (p ! j) (p ! ((j + 1) mod length p)))
                     (candidatesFrom 0 cells))))
   \<and> (set cells' = set cells \<longrightarrow>
        length (extractEdgesFromCells [] cells') = length (extractEdgesFromCells [] cells))
   \<and> length (extractEdgesFromCells [] (map reverseWinding cells))
       = length (extractEdgesFromCells [] cells)
   \<and> (\<forall>i. snd s (createEdgeKey a b) = Some i \<longrightarrow>
        length (fst (processPair c0 a b s)) = length (fst s)
      \<and> fst (processPair c0 a b s) =
           (fst s)[i := (fst s ! i)\<lparr>connectedCells := connectedCells (fst s ! i) @ [c0]\<rparr>])
   \<and> createEdgeKey a b = (if lexLess a b then (printed a, printed b) else (printed b, printed a))
   \<and> (\<forall>x. \<bar>x\<bar> < 10 ^ 21 \<longrightarrow>
        (\<exists>n. toFixed6 x = Fixed (x < 0) n
           \<and> real n \<le> \<bar>x\<bar> * 10 ^ 6 + 1 / 2 \<and> \<bar>x\<bar> * 10 ^ 6 + 1 / 2 < real n + 1))
   \<and> (\<forall>a' b'. (lexLess a b \<longleftrightarrow> lexLess a' b') \<and> printed a = printed a' \<and> printed b = printed b' \<longrightarrow>
        createEdgeKey a b = createEdgeKey a' b' \<and> createEdgeKey b a = createEdgeKey a' b')
   \<and> (\<forall>a' b'. createEdgeKey a b = createEdgeKey a' b' \<longrightarrow>
        near a a' \<and> near b b' \<or> near a b' \<and> near b a')"
proof -
  obtain m where ex: "extracted (candidatesFrom 0 cells) (extractEdgesFromCells [] cells, m)"
    using extracted_edges by blast
  have d: "distinct (map keyOfEdge (extractEdgesFromCells [] cells))"
    by (rule extracted_distinct [OF ex])
  have pairs: "\<forall>c < length cells. \<forall>p. polygon (cells ! c) = Some p \<longrightarrow>
        (\<forall>j < length p.
           (\<exists>!i. i < length (extractEdgesFromCells [] cells)
                 \<and> keyOfEdge (extractEdgesFromCells [] cells ! i)
                     = createEdgeKey (p ! j) (p ! ((j + 1) mod length p)))
         \<and> (\<forall>i < length (extractEdgesFromCells [] cells).
               keyOfEdge (extractEdgesFromCells [] cells ! i)
                   = createEdgeKey (p ! ((j + 1) mod length p)) (p ! j) \<longrightarrow>
               c \<in> set (connectedCells (extractEdgesFromCells [] cells ! i))
             \<and> connectedCells (extractEdgesFromCells [] cells ! i)
                 = ownersOf (createEdgeKey (p ! j) (p ! ((j + 1) mod length p)))
                     (candidatesFrom 0 cells)))"
    using pair_has_one_edge
    unfolding createEdgeKey_commute [of "p ! ((j + 1) mod length p)" "p ! j" for p j]
    by blast
  have order: "set cells' = set cells \<longrightarrow>
        length (extractEdgesFromCells [] cells') = length (extractEdgesFromCells [] cells)"
    using same_cells_same_length by blast
  have repeated: "\<forall>i. snd s (createEdgeKey a b) = Some i \<longrightarrow>
        length (fst (processPair c0 a b s)) = length (fst s)
      \<and> fst (processPair c0 a b s) =
           (fst s)[i := (fst s ! i)\<lparr>connectedCells := connectedCells (fst s ! i) @ [c0]\<rparr>]"
    using processPair_repeated [of s a b _ c0] by blast
  have rounds: "\<forall>x. \<bar>x\<bar> < 10 ^ 21 \<longrightarrow>
        (\<exists>n. toFixed6 x = Fixed (x < 0) n
           \<and> real n \<le> \<bar>x\<bar> * 10 ^ 6 + 1 / 2 \<and> \<bar>x\<bar> * 10 ^ 6 + 1 / 2 < real n + 1)"
    using toFixed6_rounds by blast
  have merge: "\<forall>a' b'. (lexLess a b \<longleftrightarrow> lexLess a' b') \<and> printed a = printed a' \<and> printed b = printed b' \<longrightarrow>
        createEdgeKey a b = createEdgeKey a' b' \<and> createEdgeKey b a = createEdgeKey a' b'"
    using same_order_same_key createEdgeKey_commute by metis
  have tol: "\<forall>a' b'. createEdgeKey a b = createEdgeKey a' b' \<longrightarrow>
        near a a' \<and> near b b' \<or> near a b' \<and> near b a'"
    using same_key_near by blast
  show ?thesis
    by (intro conjI)
       (rule createEdgeKey_commute d pairs order reversed_same_length repeated
          createEdgeKey_ordered rounds merge tol)+
qed

theorem each_edge_extracted_once_witness:
  "createEdgeKey (0, 1) (1, 0) = createEdgeKey (1, 0) (0, 1)
   \<and> (1::nat) < length twoTriangles
   \<and> polygon (twoTriangles ! 1) = Some [(1, 0), (1, 1), (0, 1)]
   \<and> (2::nat) < length [(1, 0), (1, 1), (0, 1 :: real) :: point]
   \<and> length (extractEdgesFromCells [] twoTriangles) = 5
   \<and> keyOfEdge (extractEdgesFromCells [] twoTriangles ! 1) = createEdgeKey (0, 1) (1, 0)
   \<and> connectedCells (extractEdgesFromCells [] twoTriangles ! 1) = [0, 1]
   \<and> set (rev twoTriangles) = set twoTriangles
   \<and> length (extractEdgesFromCells [] (rev twoTriangles)) = 5
   \<and> length (extractEdgesFromCells [] (map reverseWinding twoTriangles)) = 5
   \<and> snd (processPair 0 (1, 0) (0, 1) ([], Map.empty)) (createEdgeKey (0, 1) (1, 0)) = Some 0
   \<and> map connectedCells
        (fst (processPair 1 (0, 1) (1, 0) (processPair 0 (1, 0) (0, 1) ([], Map.empty)))) = [[0, 1]]
   \<and> lexLess (0, 1) (1, 0)
   \<and> createEdgeKey (0, 1) (1, 0) = (printed (0, 1), printed (1, 0))
   \<and> \<bar>1 / 10 ^ 7 :: real\<bar> < 10 ^ 21
   \<and> toFixed6 (1 / 10 ^ 7) = Fixed False 0
   \<and> toFixed6 (- (14 / 10 ^ 7)) = Fixed True 1
   \<and> lexLess (1 / 10 ^ 7, 1) (1, 0)
   \<and> printed (0, 1) = printed (1 / 10 ^ 7, 1)
   \<and> createEdgeKey (0, 1) (1, 0) = createEdgeKey (1 / 10 ^ 7, 1) (1, 0)
   \<and> createEdgeKey (1, 0) (0, 1) = createEdgeKey (1 / 10 ^ 7, 1) (1, 0)
   \<and> near (0, 1) (1 / 10 ^ 7, 1) \<and> near (1, 0) (1, 0)"
proof -
  have step: "snd (processPair 0 (1, 0) (0, 1) ([], Map.empty)) (createEdgeKey (0, 1) (1, 0)) = Some 0"
    by (simp add: processPair_def createEdgeKey_def toFixed6_def Let_def)
  have p: "polygon (twoTriangles ! 1) = Some [(1, 0), (1, 1), (0, 1)]"
    by (simp add: twoTriangles_def)
  have l: "(1::nat) < length twoTriangles"
    by (simp add: twoTriangles_def)
  note T = each_edge_extracted_once [of "(0, 1)" "(1, 0)" twoTriangles "rev twoTriangles"
        "processPair 0 (1, 0) (0, 1) ([], Map.empty)" 1]
  note old = conjI [OF T [THEN conjunct1]
      conjI [OF T [THEN conjunct2, THEN conjunct1]
      conjI [OF T [THEN conjunct2, THEN conjunct2, THEN conjunct1]
      conjI [OF T [THEN conjunct2, THEN conjunct2, THEN conjunct2, THEN conjunct1]
      conjI [OF T [THEN conjunct2, THEN conjunct2, THEN conjunct2, THEN conjunct2, THEN conjunct1]
        T [THEN conjunct2, THEN conjunct2, THEN conjunct2, THEN conjunct2, THEN conjunct2,
           THEN conjunct1]]]]]]
  note new = T [THEN conjunct2, THEN conjunct2, THEN conjunct2, THEN conjunct2, THEN conjunct2,
           THEN conjunct2]
  have first: "createEdgeKey (0, 1) (1, 0) = createEdgeKey (1, 0) (0, 1)
   \<and> (1::nat) < length twoTriangles
   \<and> polygon (twoTriangles ! 1) = Some [(1, 0), (1, 1), (0, 1)]
   \<and> (2::nat) < length [(1, 0), (1, 1), (0, 1 :: real) :: point]
   \<and> length (extractEdgesFromCells [] twoTriangles) = 5
   \<and> keyOfEdge (extractEdgesFromCells [] twoTriangles ! 1) = createEdgeKey (0, 1) (1, 0)
   \<and> connectedCells (extractEdgesFromCells [] twoTriangles ! 1) = [0, 1]
   \<and> set (rev twoTriangles) = set twoTriangles
   \<and> length (extractEdgesFromCells [] (rev twoTriangles)) = 5
   \<and> length (extractEdgesFromCells [] (map reverseWinding twoTriangles)) = 5
   \<and> snd (processPair 0 (1, 0) (0, 1) ([], Map.empty)) (createEdgeKey (0, 1) (1, 0)) = Some 0
   \<and> map connectedCells
        (fst (processPair 1 (0, 1) (1, 0) (processPair 0 (1, 0) (0, 1) ([], Map.empty)))) = [[0, 1]]"
    using old twoTriangles_extracted step p l
    by (simp add: newEdge_def processPair_def Let_def)
  have less: "lexLess (0, 1) (1, 0)" "lexLess (1 / 10 ^ 7, 1) (1, 0)"
    by (simp_all add: lexLess_def)
  have key: "createEdgeKey (0, 1) (1, 0) = (printed (0, 1), printed (1, 0))"
    using new [THEN conjunct1] less(1) by simp
  have small: "\<bar>1 / 10 ^ 7 :: real\<bar> < 10 ^ 21" "\<bar>- (14 / 10 ^ 7) :: real\<bar> < 10 ^ 21"
    by simp_all
  note rounds = new [THEN conjunct2, THEN conjunct1, rule_format]
  obtain n where n: "toFixed6 (1 / 10 ^ 7) = Fixed (1 / 10 ^ 7 < (0::real)) n"
      "real n \<le> \<bar>1 / 10 ^ 7\<bar> * 10 ^ 6 + 1 / 2"
    using rounds [OF small(1)] by blast
  have "real n < 1"
    using n(2) by simp
  then have "n = 0"
    by simp
  then have zero: "toFixed6 (1 / 10 ^ 7) = Fixed False 0"
    using n(1) by simp
  obtain m where m: "toFixed6 (- (14 / 10 ^ 7)) = Fixed (- (14 / 10 ^ 7) < (0::real)) m"
      "real m \<le> \<bar>- (14 / 10 ^ 7)\<bar> * 10 ^ 6 + 1 / 2"
      "\<bar>- (14 / 10 ^ 7)\<bar> * 10 ^ 6 + 1 / 2 < real m + 1"
    using rounds [OF small(2)] by blast
  have "real m < 2" "0 < real m"
    using m(2) m(3) by simp_all
  then have "m = 1"
    by simp
  then have one: "toFixed6 (- (14 / 10 ^ 7)) = Fixed True 1"
    using m(1) by simp
  have pr: "printed (0, 1) = printed (1 / 10 ^ 7, 1)"
    using zero by (simp add: printed_def toFixed6_def)
  note merge = new [THEN conjunct2, THEN conjunct2, THEN conjunct1, rule_format,
      of "(1 / 10 ^ 7, 1)" "(1, 0)"]
  have same: "createEdgeKey (0, 1) (1, 0) = createEdgeKey (1 / 10 ^ 7, 1) (1, 0)"
      "createEdgeKey (1, 0) (0, 1) = createEdgeKey (1 / 10 ^ 7, 1) (1, 0)"
    using merge less pr by simp_all
  note tol = new [THEN conjunct2, THEN conjunct2, THEN conjunct2, rule_format,
      of "(1 / 10 ^ 7, 1)" "(1, 0)"]
  have far: "\<not> near (0, 1) (1, 0)"
    by (simp add: near_def)
  have close: "near (0, 1) (1 / 10 ^ 7, 1) \<and> near (1, 0) (1, 0)"
    using tol [OF same(1)] far by blast
  show ?thesis
    by (intro conjI) (use first less key small zero one pr same close in blast)+
qed

section \<open>Degenerate pairs\<close>

text \<open>
  Claim C7, as the code has it. The claim says that a duplicate polygon vertex gives no
  edge. The extraction has no test on the length: the polygon \<open>(0,0), (0,0), (1,0), (0,1)\<close>
  gives a first edge from \<open>(0, 0)\<close> to \<open>(0, 0)\<close> of length 0.
\<close>

theorem zero_length_edge_extracted_counterexample:
  "len (extractEdgesFromCells [] [duplicateVertexCell] ! 0) = 0
   \<and> start (extractEdgesFromCells [] [duplicateVertexCell] ! 0)
       = endv (extractEdgesFromCells [] [duplicateVertexCell] ! 0)"
  by (simp add: duplicateVertexCell_def extract_defs)

lemma newEdge_geometry:
  "start ((newEdge i a b c)\<lparr>connectedCells := l\<rparr>) = \<lparr>vx = fst a, vy = snd a\<rparr>"
  "endv ((newEdge i a b c)\<lparr>connectedCells := l\<rparr>) = \<lparr>vx = fst b, vy = snd b\<rparr>"
  "len ((newEdge i a b c)\<lparr>connectedCells := l\<rparr>) = sqrt ((fst b - fst a) ^ 2 + (snd b - snd a) ^ 2)"
  "len ((newEdge i a b c)\<lparr>connectedCells := l\<rparr>) = 0 \<longleftrightarrow> a = b"
proof -
  have "sqrt ((fst b - fst a) ^ 2 + (snd b - snd a) ^ 2) = 0 \<longleftrightarrow> a = b"
    by (auto simp: prod_eq_iff)
  then show "len ((newEdge i a b c)\<lparr>connectedCells := l\<rparr>) = 0 \<longleftrightarrow> a = b"
    by (simp add: newEdge_def)
qed (simp_all add: newEdge_def)

text \<open>
  Claim C7, amended. Nothing is left out: every consecutive pair of every polygon, a pair
  that lists one vertex twice included, has an edge with its key in the list. Every
  edge has the endpoints of the first pair of the traversal with its key, and their
  distance as its length; so an edge has length zero exactly when that first pair lists
  the same vertex twice.
\<close>

theorem degenerate_pairs_kept:
  "(\<forall>c < length cells. \<forall>p. polygon (cells ! c) = Some p \<longrightarrow>
      (\<forall>j < length p. \<exists>i < length (extractEdgesFromCells [] cells).
          keyOfEdge (extractEdgesFromCells [] cells ! i)
            = createEdgeKey (p ! j) (p ! ((j + 1) mod length p))))
   \<and> (\<forall>i < length (extractEdgesFromCells [] cells).
        \<exists>t \<in> set (candidatesFrom 0 cells).
          List.find (\<lambda>t'. keyOfCandidate t' = keyOfEdge (extractEdgesFromCells [] cells ! i))
              (candidatesFrom 0 cells) = Some t
        \<and> start (extractEdgesFromCells [] cells ! i)
            = \<lparr>vx = fst (fst (snd t)), vy = snd (fst (snd t))\<rparr>
        \<and> endv (extractEdgesFromCells [] cells ! i)
            = \<lparr>vx = fst (snd (snd t)), vy = snd (snd (snd t))\<rparr>
        \<and> len (extractEdgesFromCells [] cells ! i)
            = sqrt ((fst (snd (snd t)) - fst (fst (snd t))) ^ 2
                    + (snd (snd (snd t)) - snd (fst (snd t))) ^ 2)
        \<and> (len (extractEdgesFromCells [] cells ! i) = 0 \<longleftrightarrow> fst (snd t) = snd (snd t)))"
proof -
  let ?es = "extractEdgesFromCells [] cells" and ?ts = "candidatesFrom 0 cells"
  obtain m where ex: "extracted ?ts (?es, m)"
    using extracted_edges by blast
  have 1: "\<exists>i < length ?es. keyOfEdge (?es ! i) = createEdgeKey (p ! j) (p ! ((j + 1) mod length p))"
    if "c < length cells" "polygon (cells ! c) = Some p" "j < length p" for c p j
    using pair_has_one_edge(1) [OF that] by blast
  have 2: "\<exists>t \<in> set ?ts.
          List.find (\<lambda>t'. keyOfCandidate t' = keyOfEdge (?es ! i)) ?ts = Some t
        \<and> start (?es ! i) = \<lparr>vx = fst (fst (snd t)), vy = snd (fst (snd t))\<rparr>
        \<and> endv (?es ! i) = \<lparr>vx = fst (snd (snd t)), vy = snd (snd (snd t))\<rparr>
        \<and> len (?es ! i) = sqrt ((fst (snd (snd t)) - fst (fst (snd t))) ^ 2
                    + (snd (snd (snd t)) - snd (fst (snd t))) ^ 2)
        \<and> (len (?es ! i) = 0 \<longleftrightarrow> fst (snd t) = snd (snd t))"
    if len: "i < length ?es" for i
  proof -
    obtain t where t: "List.find (\<lambda>t. keyOfCandidate t = keyOfEdge (?es ! i)) ?ts = Some t"
        "?es ! i = (newEdge i (fst (snd t)) (snd (snd t)) (fst t))
                          \<lparr>connectedCells := ownersOf (keyOfEdge (?es ! i)) ?ts\<rparr>"
      using extracted_edge [OF ex len] by blast
    have "t \<in> set ?ts" using find_mem [OF t(1)] .
    then show ?thesis
      using t(1) newEdge_geometry [where i = i and a = "fst (snd t)" and b = "snd (snd t)"
          and c = "fst t" and l = "ownersOf (keyOfEdge (?es ! i)) ?ts"]
      unfolding t(2) [symmetric] by blast
  qed
  show ?thesis using 1 2 by blast
qed

theorem degenerate_pairs_kept_witness:
  "(0::nat) < length [duplicateVertexCell]
   \<and> polygon ([duplicateVertexCell] ! 0) = Some [(0, 0), (0, 0), (1, 0), (0, 1)]
   \<and> (0::nat) < length [(0, 0), (0, 0), (1, 0), (0 :: real, 1 :: real)]
   \<and> (0::nat) < length (extractEdgesFromCells [] [duplicateVertexCell])
   \<and> keyOfEdge (extractEdgesFromCells [] [duplicateVertexCell] ! 0) = createEdgeKey (0, 0) (0, 0)
   \<and> List.find (\<lambda>t'. keyOfCandidate t' = keyOfEdge (extractEdgesFromCells [] [duplicateVertexCell] ! 0))
         (candidatesFrom 0 [duplicateVertexCell]) = Some (0, (0, 0), (0, 0))
   \<and> len (extractEdgesFromCells [] [duplicateVertexCell] ! 0) = 0"
  using degenerate_pairs_kept [of "[duplicateVertexCell]"]
  by (simp add: duplicateVertexCell_def extract_defs keyOfEdge_def keyOfCandidate_def cellPairs_def)

end
